theory Spec2Isabelle
  imports Main "HOL-Library.Word"
begin

unbundle bit_operations_syntax

section \<open>The frame codec of internal/multiplex/obfs.go\<close>

text \<open>
  The file obfs.go turns a multiplexer frame into wire bytes (\<open>MakeObfs\<close>), turns wire
  bytes back into a frame (\<open>MakeDeobfs\<close>) and builds both closures from an encryption
  method and a session key (\<open>GenerateObfs\<close>). This theory embeds the three functions
  and proves properties of them.

  The cryptographic primitives come from libraries outside the repository (Salsa20,
  AES-GCM, ChaCha20-Poly1305, the system random source). They are parameters of the
  model: a record \<open>crypto_lib\<close> for the library entry points and a record \<open>AEAD\<close> for a
  \<open>cipher.AEAD\<close> value. Every theorem holds for all instances of these parameters
  that satisfy the hypotheses it names.
\<close>

subsection \<open>Bytes and big-endian integers\<close>

type_synonym byte = "8 word"

text \<open>\<open>binary.BigEndian.PutUint32\<close>, \<open>PutUint64\<close> and \<open>PutUint16\<close>: the bytes written,
  most significant first.\<close>

definition putU32 :: "32 word \<Rightarrow> byte list" where
  "putU32 v = [ucast (drop_bit 24 v), ucast (drop_bit 16 v), ucast (drop_bit 8 v), ucast v]"

definition putU64 :: "64 word \<Rightarrow> byte list" where
  "putU64 v = [ucast (drop_bit 56 v), ucast (drop_bit 48 v), ucast (drop_bit 40 v),
               ucast (drop_bit 32 v), ucast (drop_bit 24 v), ucast (drop_bit 16 v),
               ucast (drop_bit 8 v), ucast v]"

definition putU16 :: "16 word \<Rightarrow> byte list" where
  "putU16 v = [ucast (drop_bit 8 v), ucast v]"

text \<open>\<open>binary.BigEndian.Uint32\<close> and \<open>Uint64\<close>; the callers pass slices of exactly 4 and
  8 bytes.\<close>

definition u32 :: "byte list \<Rightarrow> 32 word" where
  "u32 b = ucast (b ! 3) OR push_bit 8 (ucast (b ! 2)) OR push_bit 16 (ucast (b ! 1))
           OR push_bit 24 (ucast (b ! 0))"

definition u64 :: "byte list \<Rightarrow> 64 word" where
  "u64 b = ucast (b ! 7) OR push_bit 8 (ucast (b ! 6)) OR push_bit 16 (ucast (b ! 5))
           OR push_bit 24 (ucast (b ! 4)) OR push_bit 32 (ucast (b ! 3))
           OR push_bit 40 (ucast (b ! 2)) OR push_bit 48 (ucast (b ! 1))
           OR push_bit 56 (ucast (b ! 0))"

definition HEADER_LEN :: nat where
  "HEADER_LEN = 14"

definition E_METHOD_PLAIN :: byte where
  "E_METHOD_PLAIN = 0"

definition E_METHOD_AES_GCM :: byte where
  "E_METHOD_AES_GCM = 1"

definition E_METHOD_CHACHA20_POLY1305 :: byte where
  "E_METHOD_CHACHA20_POLY1305 = 2"

subsection \<open>Frames, errors and the library interfaces\<close>

text \<open>A \<open>Frame\<close>. The payload is a Go slice: the encoder only reads its contents, so
  there it is a byte list; the decoder returns a slice of its working copy, so there it
  is a slice reference into the store.\<close>

record 'p Frame =
  StreamID :: "32 word"
  Seq :: "64 word"
  Closing :: byte
  Payload :: 'p

text \<open>The error values of the file, one constructor per \<open>errors.New\<close> or \<open>fmt.Errorf\<close>,
  \<open>ErrOpen\<close> for the error \<open>payloadCipher.Open\<close> returns, \<open>ErrCipherInit\<close> for an
  error of a cipher constructor, and \<open>Panic\<close> for a run-time panic (slice bounds out
  of range, a nonce of the wrong length).\<close>

datatype error =
    ErrBufferTooSmall
  | ErrInputTooShort nat
  | ErrExtraLen
  | ErrOpen
  | ErrKeySize
  | ErrUnknownMethod
  | ErrCipherInit
  | Panic

text \<open>A \<open>cipher.AEAD\<close> as the file uses it: \<open>Overhead()\<close>, \<open>Seal(nil, nonce, plaintext,
  nil)\<close> and \<open>Open(dst, nonce, ciphertext, nil)\<close> (\<open>None\<close> when \<open>Open\<close> returns an
  error). \<open>OpenScratch\<close> is what a failed \<open>Open\<close> leaves in the destination storage
  (Go's GCM zeroes it).\<close>

record AEAD =
  Overhead :: nat
  Seal :: "byte list \<Rightarrow> byte list \<Rightarrow> byte list"
  Open :: "byte list \<Rightarrow> byte list \<Rightarrow> byte list option"
  OpenScratch :: "byte list \<Rightarrow> byte list \<Rightarrow> byte list"

datatype cipher_Block = Block "byte list"

text \<open>The library entry points: the Salsa20 key stream (key, nonce, position), the
  bytes \<open>rand.Read\<close> yields, and the three cipher constructors.\<close>

record crypto_lib =
  salsa20_stream :: "byte list \<Rightarrow> byte list \<Rightarrow> nat \<Rightarrow> byte"
  rand_byte :: "nat \<Rightarrow> byte"
  aes_NewCipher :: "byte list \<Rightarrow> error + cipher_Block"
  cipher_NewGCM :: "cipher_Block \<Rightarrow> error + AEAD"
  chacha20poly1305_New :: "byte list \<Rightarrow> error + AEAD"

text \<open>\<open>salsa20.XORKeyStream(out, in, nonce, key)\<close> with \<open>out = in\<close>: every byte is
  XORed with the key stream; the library panics unless the nonce has 8 or 24 bytes.\<close>

definition XORKeyStream :: "crypto_lib \<Rightarrow> byte list \<Rightarrow> byte list \<Rightarrow> byte list \<Rightarrow> byte list option" where
  "XORKeyStream lib inp nonce key =
     (if length nonce = 8 \<or> length nonce = 24
      then Some (map (\<lambda>i. inp ! i XOR salsa20_stream lib key nonce i) [0..<length inp])
      else None)"

text \<open>\<open>rand.Read(b)\<close> for a slice of \<open>n\<close> bytes.\<close>

definition rand_Read :: "crypto_lib \<Rightarrow> nat \<Rightarrow> byte list" where
  "rand_Read lib n = map (rand_byte lib) [0..<n]"

subsection \<open>The encoder\<close>

text \<open>The bytes of the slice expression \<open>xs[lo:hi]\<close>, for bounds the caller has checked,
  and writing \<open>bs\<close> into a buffer from offset \<open>off\<close> on (all writes of the encoder lie
  inside the buffer, after its length check).\<close>

definition sub :: "'a list \<Rightarrow> nat \<Rightarrow> nat \<Rightarrow> 'a list" where
  "sub xs lo hi = take (hi - lo) (drop lo xs)"

definition write_at :: "'a list \<Rightarrow> nat \<Rightarrow> 'a list \<Rightarrow> 'a list" where
  "write_at buf off bs = take off buf @ bs @ drop (off + length bs) buf"

text \<open>Lines 39 to 46: the number of bytes added after the payload.\<close>

definition obfs_extraLen :: "AEAD option \<Rightarrow> byte list Frame \<Rightarrow> byte" where
  "obfs_extraLen payloadCipher f =
     (case payloadCipher of
        None \<Rightarrow> (if length (Payload f) < 8 then of_nat (8 - length (Payload f)) else 0)
      | Some c \<Rightarrow> of_nat (Overhead c))"

text \<open>The closure \<open>obfs\<close> returned by \<open>MakeObfs(salsaKey, payloadCipher, hasRecordLayer)\<close>.
  It takes the frame and the buffer and returns the buffer as it is afterwards together
  with the result \<open>(int, error)\<close>. The frame's payload is a value: it shares no storage
  with \<open>buf\<close>. \<open>b1\<close> to \<open>b4\<close> are the buffer after the four header writes (lines 59 to
  62), \<open>b5\<close> after the payload, padding or ciphertext is written (lines 64 to 72), \<open>b6\<close>
  after the header is masked (lines 74 and 75), \<open>b7\<close> after the record layer prefix
  (lines 77 to 84). The slice \<open>encryptedPayloadWithExtra[len-8:]\<close> of line 74 panics
  when the region has fewer than 8 bytes.\<close>

definition MakeObfs ::
  "crypto_lib \<Rightarrow> byte list \<Rightarrow> AEAD option \<Rightarrow> bool \<Rightarrow> byte list Frame \<Rightarrow> byte list
     \<Rightarrow> byte list \<times> (error + nat)" where
  "MakeObfs lib salsaKey payloadCipher hasRecordLayer f buf =
     (let rlLen = (if hasRecordLayer then 5 else 0);
          extraLen = obfs_extraLen payloadCipher f;
          usefulLen = rlLen + HEADER_LEN + length (Payload f) + unat extraLen
      in if length buf < usefulLen then (buf, Inl ErrBufferTooSmall)
         else
           let hdr = rlLen;
               pld = rlLen + HEADER_LEN;
               pldLen = usefulLen - pld;
               b1 = write_at buf hdr (putU32 (StreamID f));
               b2 = write_at b1 (hdr + 4) (putU64 (Seq f));
               b3 = b2[hdr + 12 := Closing f];
               b4 = b3[hdr + 13 := extraLen];
               b5 = (case payloadCipher of
                       None \<Rightarrow>
                         (let c1 = write_at b4 pld (take pldLen (Payload f))
                          in if extraLen \<noteq> 0
                             then write_at c1 (usefulLen - unat extraLen)
                                    (rand_Read lib (unat extraLen))
                             else c1)
                     | Some c \<Rightarrow>
                         write_at b4 pld
                           (take pldLen (Seal c (sub b4 hdr (hdr + 12)) (Payload f))))
           in if pldLen < 8 then (b5, Inl Panic)
              else
                (case XORKeyStream lib (sub b5 hdr (hdr + HEADER_LEN))
                        (sub b5 (usefulLen - 8) usefulLen) salsaKey of
                   None \<Rightarrow> (b5, Inl Panic)
                 | Some h \<Rightarrow>
                     (let b6 = write_at b5 hdr h;
                          b7 = (if hasRecordLayer
                                then write_at (b6[0 := 0x17, 1 := 0x03, 2 := 0x03]) 3
                                       (putU16 (of_nat (HEADER_LEN + pldLen)))
                                else b6)
                      in (b7, Inr usefulLen))))"

subsection \<open>The decoder, on a store of byte arrays\<close>

text \<open>The decoder allocates a working copy and de-obfuscates it in place, and the frame it
  returns points into that copy. The store is the list of the arrays allocated so far;
  a Go slice is a base array, an offset, a length and a capacity.\<close>

type_synonym heap = "byte list list"

record slice =
  sl_arr :: nat
  sl_off :: nat
  sl_len :: nat
  sl_cap :: nat

text \<open>\<open>make([]byte, n)\<close>: a fresh zeroed array at the end of the store.\<close>

definition make_slice :: "heap \<Rightarrow> nat \<Rightarrow> heap \<times> slice" where
  "make_slice h n = (h @ [replicate n 0], \<lparr>sl_arr = length h, sl_off = 0, sl_len = n, sl_cap = n\<rparr>)"

text \<open>The slice expression \<open>s[lo:hi]\<close> on Go's signed \<open>int\<close> indices; \<open>None\<close> is the panic
  "slice bounds out of range".\<close>

definition reslice :: "slice \<Rightarrow> int \<Rightarrow> int \<Rightarrow> slice option" where
  "reslice s lo hi =
     (if 0 \<le> lo \<and> lo \<le> hi \<and> hi \<le> int (sl_cap s)
      then Some \<lparr>sl_arr = sl_arr s, sl_off = sl_off s + nat lo, sl_len = nat (hi - lo), sl_cap = sl_cap s - nat lo\<rparr>
      else None)"

text \<open>Reading the bytes of a slice, and \<open>copy(s, bs)\<close>, which writes the first
  \<open>min (sl_len s) (length bs)\<close> bytes.\<close>

definition load :: "heap \<Rightarrow> slice \<Rightarrow> byte list" where
  "load h s = sub (h ! sl_arr s) (sl_off s) (sl_off s + sl_len s)"

definition copy :: "heap \<Rightarrow> slice \<Rightarrow> byte list \<Rightarrow> heap" where
  "copy h s bs = h[sl_arr s := write_at (h ! sl_arr s) (sl_off s) (take (sl_len s) bs)]"

text \<open>\<open>payloadCipher.Open(p[:0], nonce, p, nil)\<close>: on success the plaintext is appended to
  the empty slice \<open>p[:0]\<close>, that is written over the start of \<open>p\<close>'s storage when it fits
  the capacity (into a new array otherwise); on failure the storage holds what the
  cipher left there.\<close>

definition Open_in_place :: "AEAD \<Rightarrow> heap \<Rightarrow> byte list \<Rightarrow> slice \<Rightarrow> heap \<times> bool" where
  "Open_in_place c h nonce p =
     (case Open c nonce (load h p) of
        None \<Rightarrow> (copy h p (OpenScratch c nonce (load h p)), False)
      | Some pt \<Rightarrow>
          (if length pt \<le> sl_cap p
           then copy h (p\<lparr>sl_len := length pt\<rparr>) pt
           else h, True))"

text \<open>The closure \<open>deobfs\<close> returned by \<open>MakeDeobfs(salsaKey, payloadCipher,
  hasRecordLayer)\<close>: it takes the store and the slice \<open>in\<close>, and returns the store as it
  is afterwards with the result \<open>(*Frame, error)\<close>. \<open>h1\<close> is the store after \<open>make\<close>
  (line 101), \<open>h2\<close> after the copy (line 102), \<open>h3\<close> after the header is unmasked in
  place (line 108), \<open>h4\<close> after the AEAD has opened the region in place (line 129).
  \<open>usefulPayloadLen\<close> is a signed \<open>int\<close>, as in the code.\<close>

definition MakeDeobfs ::
  "crypto_lib \<Rightarrow> byte list \<Rightarrow> AEAD option \<Rightarrow> bool \<Rightarrow> heap \<Rightarrow> slice
     \<Rightarrow> heap \<times> (error + slice Frame)" where
  "MakeDeobfs lib salsaKey payloadCipher hasRecordLayer h inp =
     (let rlLen = (if hasRecordLayer then 5 else 0)
      in if sl_len inp < rlLen + HEADER_LEN + 8
         then (h, Inl (ErrInputTooShort (rlLen + HEADER_LEN + 8)))
         else
           (let (h1, peeled) = make_slice h (sl_len inp - rlLen)
            in (case reslice inp (int rlLen) (int (sl_len inp)) of
                  None \<Rightarrow> (h1, Inl Panic)
                | Some inTail \<Rightarrow>
                    (let h2 = copy h1 peeled (load h1 inTail)
                     in (case (reslice peeled 0 (int HEADER_LEN),
                               reslice peeled (int HEADER_LEN) (int (sl_len peeled)),
                               reslice peeled (int (sl_len peeled) - 8) (int (sl_len peeled))) of
                           (Some header, Some pldWithOverHead, Some nonce) \<Rightarrow>
                             (case XORKeyStream lib (load h2 header) (load h2 nonce) salsaKey of
                                None \<Rightarrow> (h2, Inl Panic)
                              | Some x \<Rightarrow>
                                  (let h3 = copy h2 header x;
                                       hb = load h3 header;
                                       streamID = u32 (sub hb 0 4);
                                       seq = u64 (sub hb 4 12);
                                       closing = hb ! 12;
                                       extraLen = hb ! 13;
                                       usefulPayloadLen =
                                         int (sl_len pldWithOverHead) - uint extraLen
                                   in if usefulPayloadLen < 0 then (h3, Inl ErrExtraLen)
                                      else
                                        (case payloadCipher of
                                           None \<Rightarrow>
                                             (case (if extraLen = 0 then Some pldWithOverHead
                                                    else reslice pldWithOverHead 0
                                                           usefulPayloadLen) of
                                                None \<Rightarrow> (h3, Inl Panic)
                                              | Some outputPayload \<Rightarrow>
                                                  (h3, Inr \<lparr>StreamID = streamID, Seq = seq,
                                                            Closing = closing,
                                                            Payload = outputPayload\<rparr>))
                                         | Some c \<Rightarrow>
                                             (case Open_in_place c h3 (sub hb 0 12)
                                                     pldWithOverHead of
                                                (h4, False) \<Rightarrow> (h4, Inl ErrOpen)
                                              | (h4, True) \<Rightarrow>
                                                  (case reslice pldWithOverHead 0
                                                          usefulPayloadLen of
                                                     None \<Rightarrow> (h4, Inl Panic)
                                                   | Some outputPayload \<Rightarrow>
                                                       (h4, Inr \<lparr>StreamID = streamID,
                                                                 Seq = seq, Closing = closing,
                                                                 Payload = outputPayload\<rparr>))))))
                         | _ \<Rightarrow> (h2, Inl Panic))))))"

text \<open>Decoding a byte string held in an array of its own, with the payload of the
  returned frame read out of the store (\<open>read_frame\<close>).\<close>

definition read_frame :: "heap \<Rightarrow> slice Frame \<Rightarrow> byte list Frame" where
  "read_frame h fr = \<lparr>StreamID = StreamID fr, Seq = Seq fr, Closing = Closing fr,
                      Payload = load h (Payload fr)\<rparr>"

definition whole :: "nat \<Rightarrow> nat \<Rightarrow> slice" where
  "whole a n = \<lparr>sl_arr = a, sl_off = 0, sl_len = n, sl_cap = n\<rparr>"

definition deobfs_bytes ::
  "crypto_lib \<Rightarrow> byte list \<Rightarrow> AEAD option \<Rightarrow> bool \<Rightarrow> byte list
     \<Rightarrow> error + byte list Frame" where
  "deobfs_bytes lib salsaKey payloadCipher hasRecordLayer bs =
     (case MakeDeobfs lib salsaKey payloadCipher hasRecordLayer [bs] (whole 0 (length bs)) of
        (h', Inl e) \<Rightarrow> Inl e
      | (h', Inr fr) \<Rightarrow> Inr (read_frame h' fr))"

subsection \<open>Building the obfuscator\<close>

record Obfuscator =
  Obfs :: "byte list Frame \<Rightarrow> byte list \<Rightarrow> byte list \<times> (error + nat)"
  Deobfs :: "heap \<Rightarrow> slice \<Rightarrow> heap \<times> (error + slice Frame)"
  SessionKey :: "byte list"

text \<open>\<open>var salsaKey [32]byte; copy(salsaKey[:], sessionKey)\<close>.\<close>

definition salsaKey_of :: "byte list \<Rightarrow> byte list" where
  "salsaKey_of sessionKey = take 32 sessionKey @ replicate (32 - length sessionKey) 0"

text \<open>\<open>GenerateObfs\<close> has the named results \<open>(obfuscator, err)\<close>; both are returned, so
  the model returns the pair (\<open>None\<close> for \<open>nil\<close>). \<open>err\<close> is first set by the key length
  check and then assigned again by every cipher constructor that is called.\<close>

definition GenerateObfs ::
  "crypto_lib \<Rightarrow> byte \<Rightarrow> byte list \<Rightarrow> bool \<Rightarrow> Obfuscator option \<times> error option" where
  "GenerateObfs lib encryptionMethod sessionKey hasRecordLayer =
     (let err0 = (if length sessionKey \<noteq> 32 then Some ErrKeySize else None);
          salsaKey = salsaKey_of sessionKey;
          build = (\<lambda>payloadCipher err.
                     (Some \<lparr>Obfs = MakeObfs lib salsaKey payloadCipher hasRecordLayer,
                            Deobfs = MakeDeobfs lib salsaKey payloadCipher hasRecordLayer,
                            SessionKey = sessionKey\<rparr>, err))
      in if encryptionMethod = E_METHOD_PLAIN then build None err0
         else if encryptionMethod = E_METHOD_AES_GCM then
           (case aes_NewCipher lib sessionKey of
              Inl e \<Rightarrow> (None, Some e)
            | Inr c \<Rightarrow>
                (case cipher_NewGCM lib c of
                   Inl e \<Rightarrow> (None, Some e)
                 | Inr payloadCipher \<Rightarrow> build (Some payloadCipher) None))
         else if encryptionMethod = E_METHOD_CHACHA20_POLY1305 then
           (case chacha20poly1305_New lib sessionKey of
              Inl e \<Rightarrow> (None, Some e)
            | Inr payloadCipher \<Rightarrow> build (Some payloadCipher) None)
         else (None, Some ErrUnknownMethod))"

section \<open>What the encoder writes\<close>

text \<open>The wire message in closed form. \<open>hdr_bytes\<close> is the 14-byte header in the clear,
  \<open>mask\<close> the XOR with the key stream, \<open>obfs_body\<close> the bytes after the header (payload
  and random padding, or the sealed payload), \<open>obfs_wire\<close> the whole message.\<close>

definition hdr_bytes :: "byte list Frame \<Rightarrow> byte \<Rightarrow> byte list" where
  "hdr_bytes f e = putU32 (StreamID f) @ putU64 (Seq f) @ [Closing f, e]"

definition mask :: "crypto_lib \<Rightarrow> byte list \<Rightarrow> byte list \<Rightarrow> byte list \<Rightarrow> byte list" where
  "mask lib inp nonce key = map (\<lambda>i. inp ! i XOR salsa20_stream lib key nonce i) [0..<length inp]"

definition obfs_body :: "crypto_lib \<Rightarrow> AEAD option \<Rightarrow> byte list Frame \<Rightarrow> byte list" where
  "obfs_body lib payloadCipher f =
     (case payloadCipher of
        None \<Rightarrow> Payload f @ rand_Read lib (unat (obfs_extraLen None f))
      | Some c \<Rightarrow> Seal c (putU32 (StreamID f) @ putU64 (Seq f)) (Payload f))"

definition record_layer :: "bool \<Rightarrow> nat \<Rightarrow> byte list" where
  "record_layer hasRecordLayer n =
     (if hasRecordLayer then [0x17, 0x03, 0x03] @ putU16 (of_nat (HEADER_LEN + n)) else [])"

definition obfs_wire ::
  "crypto_lib \<Rightarrow> byte list \<Rightarrow> AEAD option \<Rightarrow> bool \<Rightarrow> byte list Frame \<Rightarrow> byte list" where
  "obfs_wire lib salsaKey payloadCipher hasRecordLayer f =
     (let body = obfs_body lib payloadCipher f
      in record_layer hasRecordLayer (length body)
         @ mask lib (hdr_bytes f (obfs_extraLen payloadCipher f))
             (drop (length body - 8) body) salsaKey
         @ body)"

text \<open>The number the encoder calls \<open>usefulLen\<close>.\<close>

definition usefulLen_of :: "AEAD option \<Rightarrow> bool \<Rightarrow> byte list Frame \<Rightarrow> nat" where
  "usefulLen_of payloadCipher hasRecordLayer f =
     (if hasRecordLayer then 5 else 0) + HEADER_LEN + length (Payload f)
       + unat (obfs_extraLen payloadCipher f)"

text \<open>What the proofs need of an AEAD: an overhead that fits the \<open>uint8\<close> header byte and
  leaves at least the 8 bytes the header nonce is taken from, a ciphertext that is
  \<open>Overhead()\<close> bytes longer than the plaintext, and \<open>Open\<close> inverting \<open>Seal\<close> under the
  same 12-byte nonce. AES-GCM and ChaCha20-Poly1305 have overhead 16.\<close>

definition aead_ok :: "AEAD \<Rightarrow> bool" where
  "aead_ok c \<longleftrightarrow>
     8 \<le> Overhead c \<and> Overhead c < 256 \<and>
     (\<forall>nonce p. length nonce = 12 \<longrightarrow>
        length (Seal c nonce p) = length p + Overhead c \<and>
        Open c nonce (Seal c nonce p) = Some p)"

definition cipher_ok :: "AEAD option \<Rightarrow> bool" where
  "cipher_ok payloadCipher \<longleftrightarrow> (case payloadCipher of None \<Rightarrow> True | Some c \<Rightarrow> aead_ok c)"


section \<open>What the decoder returns\<close>

text \<open>The decoder's result as a function of the input bytes alone (proved below to be
  what \<open>MakeDeobfs\<close> computes on any store): the header is unmasked with the last 8
  input bytes as nonce (\<open>deobfs_header\<close>), and the payload is the start of the
  post-header region, after the AEAD has overwritten that start with the plaintext
  (\<open>deobfs_tail\<close>, the decoder from the unmasked header on).\<close>

definition deobfs_header :: "crypto_lib \<Rightarrow> byte list \<Rightarrow> bool \<Rightarrow> byte list \<Rightarrow> byte list" where
  "deobfs_header lib salsaKey hasRecordLayer bs =
     (let r = (if hasRecordLayer then 5 else 0)
      in mask lib (sub bs r (r + 14)) (drop (length bs - 8) bs) salsaKey)"

definition deobfs_tail :: "AEAD option \<Rightarrow> byte list \<Rightarrow> byte list \<Rightarrow> error + byte list Frame" where
  "deobfs_tail payloadCipher hb region =
     (let e = hb ! 13
      in if length region < unat e then Inl ErrExtraLen
         else
           (case payloadCipher of
              None \<Rightarrow>
                Inr \<lparr>StreamID = u32 (sub hb 0 4), Seq = u64 (sub hb 4 12),
                     Closing = hb ! 12,
                     Payload = take (length region - unat e) region\<rparr>
            | Some c \<Rightarrow>
                (case Open c (sub hb 0 12) region of
                   None \<Rightarrow> Inl ErrOpen
                 | Some pt \<Rightarrow>
                     Inr \<lparr>StreamID = u32 (sub hb 0 4), Seq = u64 (sub hb 4 12),
                          Closing = hb ! 12,
                          Payload = take (length region - unat e)
                                      (if length pt \<le> length region
                                       then pt @ drop (length pt) region
                                       else region)\<rparr>)))"

definition deobfs_result ::
  "crypto_lib \<Rightarrow> byte list \<Rightarrow> AEAD option \<Rightarrow> bool \<Rightarrow> byte list \<Rightarrow> error + byte list Frame" where
  "deobfs_result lib salsaKey payloadCipher hasRecordLayer bs =
     (let r = (if hasRecordLayer then 5 else 0)
      in if length bs < r + 22 then Inl (ErrInputTooShort (r + 22))
         else deobfs_tail payloadCipher (deobfs_header lib salsaKey hasRecordLayer bs)
                (drop (r + 14) bs))"

text \<open>A slice that lies inside an array of the store.\<close>

definition slice_ok :: "heap \<Rightarrow> slice \<Rightarrow> bool" where
  "slice_ok h s \<longleftrightarrow>
     sl_arr s < length h \<and> sl_len s \<le> sl_cap s \<and> sl_off s + sl_cap s \<le> length (h ! sl_arr s)"


section \<open>Tampered messages and the length field\<close>



text \<open>The number a big-endian byte string denotes (to read the length field of the record
  layer prefix).\<close>

definition be_value :: "byte list \<Rightarrow> nat" where
  "be_value bs = foldl (\<lambda>a b. a * 256 + unat b) 0 bs"

section \<open>A test double of the cipher libraries\<close>

text \<open>To evaluate the definitions at concrete inputs, a small instance of the library
  interfaces: a key stream that depends on key, nonce and position; an AEAD whose
  16-byte tag holds the nonce and a checksum of the plaintext; constructors with the key
  sizes Go documents (\<open>aes.NewCipher\<close> takes 16, 24 or 32 bytes,
  \<open>chacha20poly1305.New\<close> takes 32).\<close>

definition test_stream :: "byte list \<Rightarrow> byte list \<Rightarrow> nat \<Rightarrow> byte" where
  "test_stream key nonce i =
     (key @ replicate 32 0) ! (i mod 32) + 3 * ((nonce @ replicate 8 0) ! (i mod 8)) + of_nat i"

definition test_tag :: "byte list \<Rightarrow> byte list \<Rightarrow> byte list" where
  "test_tag nonce p = take 12 (nonce @ replicate 12 0) @ replicate 4 (foldr (+) p 0x5C)"

definition test_seal :: "byte list \<Rightarrow> byte list \<Rightarrow> byte list" where
  "test_seal nonce p = map (\<lambda>b. b XOR 0xA5) p @ test_tag nonce p"

definition test_open :: "byte list \<Rightarrow> byte list \<Rightarrow> byte list option" where
  "test_open nonce c =
     (if length c < 16 then None
      else (let p = map (\<lambda>b. b XOR 0xA5) (take (length c - 16) c)
            in if drop (length c - 16) c = test_tag nonce p then Some p else None))"

definition test_aead :: AEAD where
  "test_aead = \<lparr>Overhead = 16, Seal = test_seal, Open = test_open,
                OpenScratch = (\<lambda>nonce c. replicate (length c - 16) 0)\<rparr>"

definition test_lib :: crypto_lib where
  "test_lib =
     \<lparr>salsa20_stream = test_stream,
      rand_byte = (\<lambda>i. of_nat (7 * i + 1)),
      aes_NewCipher = (\<lambda>k. if length k = 16 \<or> length k = 24 \<or> length k = 32
                            then Inr (Block k) else Inl ErrCipherInit),
      cipher_NewGCM = (\<lambda>b. Inr test_aead),
      chacha20poly1305_New = (\<lambda>k. if length k = 32 then Inr test_aead
                                   else Inl ErrCipherInit)\<rparr>"

definition test_key :: "byte list" where
  "test_key = replicate 32 0"

definition test_frame :: "byte list Frame" where
  "test_frame = \<lparr>StreamID = 1, Seq = 0, Closing = 0, Payload = [0x70, 0x69, 0x6E, 0x67]\<rparr>"

text \<open>The bytes the encoder writes for \<open>test_frame\<close> under \<open>test_aead\<close> without the record
  layer (14 masked header bytes, 4 ciphertext bytes, the 16-byte tag), and the same
  message with the top bit of byte 31, one of the last 8, flipped.\<close>

definition test_wire :: "byte list" where
  "test_wire = [0, 1, 2, 2, 34, 35, 36, 37, 8, 9, 10, 11, 42, 59,
                213, 204, 203, 194,
                0, 0, 0, 1, 0, 0, 0, 0, 0, 0, 0, 0, 10, 10, 10, 10]"

definition test_wire_flipped :: "byte list" where
  "test_wire_flipped = [0, 1, 2, 2, 34, 35, 36, 37, 8, 9, 10, 11, 42, 59,
                        213, 204, 203, 194,
                        0, 0, 0, 1, 0, 0, 0, 0, 0, 0, 0, 0, 10, 138, 10, 10]"

section \<open>Facts about buffers and the byte order helpers\<close>

lemma length_sub: "hi \<le> length xs \<Longrightarrow> length (sub xs lo hi) = hi - lo"
  by (simp add: sub_def)

lemma length_write_at: "off + length bs \<le> length buf \<Longrightarrow> length (write_at buf off bs) = length buf"
  by (simp add: write_at_def)

lemma sub_write_at_same:
  "off + length bs \<le> length buf \<Longrightarrow> hi = off + length bs \<Longrightarrow> sub (write_at buf off bs) off hi = bs"
  by (simp add: write_at_def sub_def)

lemma take_write_at:
  "off + length bs \<le> length buf \<Longrightarrow> k \<le> off \<Longrightarrow> take k (write_at buf off bs) = take k buf"
  by (simp add: write_at_def min_def)

lemma sub_alt: "sub xs lo hi = drop lo (take hi xs)"
  by (simp add: sub_def drop_take)

lemma sub_write_at_before:
  "off + length bs \<le> length buf \<Longrightarrow> hi \<le> off \<Longrightarrow> sub (write_at buf off bs) lo hi = sub buf lo hi"
  by (simp only: sub_alt take_write_at)

lemma sub_write_at_after:
  "off + length bs \<le> length buf \<Longrightarrow> off + length bs \<le> lo \<Longrightarrow> sub (write_at buf off bs) lo hi = sub buf lo hi"
  by (simp add: write_at_def sub_def)

lemma drop_write_at:
  "off + length bs \<le> length buf \<Longrightarrow> off + length bs \<le> k \<Longrightarrow> drop k (write_at buf off bs) = drop k buf"
  by (simp add: write_at_def)

lemma sub_split:
  assumes "lo \<le> mid" "mid \<le> hi"
  shows "sub xs lo hi = sub xs lo mid @ sub xs mid hi"
proof -
  have "take ((mid - lo) + (hi - mid)) (drop lo xs)
        = take (mid - lo) (drop lo xs) @ take (hi - mid) (drop (mid - lo) (drop lo xs))"
    by (rule take_add)
  moreover have "drop (mid - lo) (drop lo xs) = drop mid xs" using assms by simp
  moreover have "(mid - lo) + (hi - mid) = hi - lo" using assms by simp
  ultimately show ?thesis by (simp only: sub_def)
qed

lemma update_write_at: "i < length buf \<Longrightarrow> buf[i := x] = write_at buf i [x]"
  by (simp add: write_at_def upd_conv_take_nth_drop)

lemma sub_0: "sub xs 0 n = take n xs"
  by (simp add: sub_def)

lemma drop_split:
  assumes "lo \<le> hi"
  shows "drop lo xs = sub xs lo hi @ drop hi xs"
proof -
  have "drop (hi - lo) (drop lo xs) = drop hi xs" using assms by simp
  then have "take (hi - lo) (drop lo xs) @ drop hi xs = drop lo xs"
    using append_take_drop_id[of "hi - lo" "drop lo xs"] by simp
  then show ?thesis by (simp add: sub_def)
qed

lemma whole_split:
  assumes "lo \<le> hi"
  shows "xs = take lo xs @ sub xs lo hi @ drop hi xs"
  using drop_split[OF assms, of xs] append_take_drop_id[of lo xs] by simp

lemma write_at_twice:
  assumes "off + length xs + length ys \<le> length buf"
  shows "write_at (write_at buf off xs) (off + length xs) ys = write_at buf off (xs @ ys)"
proof -
  have o: "off \<le> length buf" using assms by simp
  have 1: "take (off + length xs) (write_at buf off xs) = take off buf @ xs"
    using o by (simp add: write_at_def)
  have 2: "drop (off + length xs + length ys) (write_at buf off xs)
           = drop (off + length xs + length ys) buf"
    using assms by (intro drop_write_at) auto
  have "write_at (write_at buf off xs) (off + length xs) ys
        = take (off + length xs) (write_at buf off xs) @ ys
          @ drop (off + length xs + length ys) (write_at buf off xs)"
    by (simp only: write_at_def)
  also have "\<dots> = (take off buf @ xs) @ ys @ drop (off + length xs + length ys) buf"
    by (simp only: 1 2)
  also have "\<dots> = write_at buf off (xs @ ys)"
    by (simp add: write_at_def add_ac)
  finally show ?thesis .
qed

lemma length_putU32 [simp]: "length (putU32 v) = 4"
  by (simp add: putU32_def)
lemma length_putU64 [simp]: "length (putU64 v) = 8"
  by (simp add: putU64_def)
lemma length_putU16 [simp]: "length (putU16 v) = 2"
  by (simp add: putU16_def)
lemma length_mask [simp]: "length (mask lib inp nonce key) = length inp"
  by (simp add: mask_def)
lemma length_rand_Read [simp]: "length (rand_Read lib n) = n"
  by (simp add: rand_Read_def)
lemma length_hdr_bytes [simp]: "length (hdr_bytes f e) = 14"
  by (simp add: hdr_bytes_def)

lemma XORKeyStream_8: "length nonce = 8 \<Longrightarrow> XORKeyStream lib inp nonce key = Some (mask lib inp nonce key)"
  by (simp add: XORKeyStream_def mask_def)

lemma unat_extraLen_plain:
  "unat (obfs_extraLen None f) = 8 - length (Payload f)"
proof (cases "length (Payload f) < 8")
  case True
  then have "8 - length (Payload f) < 256" by simp
  then show ?thesis using True by (simp add: obfs_extraLen_def unat_of_nat del: of_nat_diff)
next
  case False then show ?thesis by (simp add: obfs_extraLen_def)
qed

lemma unat_extraLen_aead:
  "aead_ok c \<Longrightarrow> unat (obfs_extraLen (Some c) f) = Overhead c"
  by (simp add: obfs_extraLen_def aead_ok_def unat_of_nat)

lemma length_obfs_body:
  assumes "cipher_ok pc"
  shows "length (obfs_body lib pc f) = length (Payload f) + unat (obfs_extraLen pc f)"
proof (cases pc)
  case None then show ?thesis by (simp add: obfs_body_def)
next
  case (Some c)
  then have "aead_ok c" using assms by (simp add: cipher_ok_def)
  then show ?thesis using Some unat_extraLen_aead[of c f]
    by (simp add: obfs_body_def aead_ok_def)
qed

lemma obfs_body_ge8:
  assumes "cipher_ok pc"
  shows "8 \<le> length (obfs_body lib pc f)"
proof (cases pc)
  case None then show ?thesis using unat_extraLen_plain[of f] by (simp add: obfs_body_def)
next
  case (Some c)
  then have "aead_ok c" using assms by (simp add: cipher_ok_def)
  then show ?thesis using Some by (simp add: obfs_body_def aead_ok_def)
qed

lemma u32_putU32: "u32 (putU32 v) = v"
proof (rule bit_eqI)
  fix n assume "possible_bit TYPE(32 word) n"
  then have n: "n < 32" by simp
  consider "n < 8" | "8 \<le> n" "n < 16" | "16 \<le> n" "n < 24" | "24 \<le> n" "n < 32"
    using n by linarith
  then show "bit (u32 (putU32 v)) n = bit v n"
    by cases (auto simp add: u32_def putU32_def bit_simps)
qed

lemma u64_putU64: "u64 (putU64 v) = v"
proof (rule bit_eqI)
  fix n assume "possible_bit TYPE(64 word) n"
  then have n: "n < 64" by simp
  consider "n < 8" | "8 \<le> n" "n < 16" | "16 \<le> n" "n < 24" | "24 \<le> n" "n < 32"
    | "32 \<le> n" "n < 40" | "40 \<le> n" "n < 48" | "48 \<le> n" "n < 56" | "56 \<le> n" "n < 64"
    using n by linarith
  then show "bit (u64 (putU64 v)) n = bit v n"
    by cases (auto simp add: u64_def putU64_def bit_simps)
qed

section \<open>The encoder writes the wire message\<close>

lemma sub_tail:
  assumes "sub xs lo hi = body" "hi \<le> length xs" "lo + k \<le> hi"
  shows "sub xs (hi - k) hi = drop (length body - k) body"
proof -
  have lb: "length body = hi - lo" using assms by (auto simp: sub_def)
  have "body = sub xs lo (hi - k) @ sub xs (hi - k) hi"
    using assms sub_split[of lo "hi - k" hi xs] by simp
  moreover have "length (sub xs lo (hi - k)) = length body - k"
    using assms lb by (simp add: sub_def)
  ultimately show ?thesis by (metis append_eq_conv_conj)
qed

lemma write_record_layer:
  assumes "5 \<le> length xs"
  shows "write_at (xs[0 := a, 1 := b, 2 := c]) 3 (putU16 v) = [a, b, c] @ putU16 v @ drop 5 xs"
proof -
  obtain x0 t0 where t0: "xs = x0 # t0" using assms by (cases xs) auto
  obtain x1 t1 where t1: "t0 = x1 # t1" using assms t0 by (cases t0) auto
  obtain x2 rest where t2: "t1 = x2 # rest" using assms t0 t1 by (cases t1) auto
  have xs: "xs = x0 # x1 # x2 # rest" by (simp add: t0 t1 t2)
  show ?thesis using assms by (simp add: xs write_at_def putU16_def)
qed

lemma MakeObfs_wire:
  assumes ok: "cipher_ok pc"
      and fits: "usefulLen_of pc rl f \<le> length buf"
  shows "MakeObfs lib key pc rl f buf
         = (obfs_wire lib key pc rl f @ drop (usefulLen_of pc rl f) buf,
            Inr (usefulLen_of pc rl f))"
proof -
  define e where "e = obfs_extraLen pc f"
  define r where "r = (if rl then 5 else 0::nat)"
  define n where "n = r + HEADER_LEN + length (Payload f) + unat e"
  define body where "body = obfs_body lib pc f"
  define b1 where "b1 = write_at buf r (putU32 (StreamID f))"
  define b2 where "b2 = write_at b1 (r + 4) (putU64 (Seq f))"
  define b3 where "b3 = b2[r + 12 := Closing f]"
  define b4 where "b4 = b3[r + 13 := e]"
  define b5 where "b5 = write_at b4 (r + HEADER_LEN) body"
  define h where "h = mask lib (hdr_bytes f e) (drop (length body - 8) body) key"
  define b6 where "b6 = write_at b5 r h"
  have n_eq: "usefulLen_of pc rl f = n"
    by (simp add: usefulLen_of_def n_def r_def e_def)
  have lb: "length body = length (Payload f) + unat e"
    unfolding body_def e_def by (rule length_obfs_body[OF ok])
  have b8: "8 \<le> length body" unfolding body_def by (rule obfs_body_ge8[OF ok])
  have n2: "n = r + 14 + length body" by (simp add: n_def lb HEADER_LEN_def)
  have nb: "n \<le> length buf" using fits n_eq by simp
  have l1: "length b1 = length buf" unfolding b1_def using nb n2 by (simp add: length_write_at)
  have l2: "length b2 = length buf" unfolding b2_def using nb n2 l1 by (simp add: length_write_at)
  have l3: "length b3 = length buf" unfolding b3_def using l2 by simp
  have l4: "length b4 = length buf" unfolding b4_def using l3 by simp
  have b3w: "b3 = write_at b2 (r + 12) [Closing f]"
    unfolding b3_def using l2 nb n2 by (simp add: update_write_at)
  have b4w: "b4 = write_at b3 (r + 13) [e]"
    unfolding b4_def using l3 nb n2 by (simp add: update_write_at)
  have hd4: "sub b4 r (r + 14) = hdr_bytes f e"
  proof -
    have s1: "sub b4 r (r + 4) = putU32 (StreamID f)"
      unfolding b4w b3w b2_def b1_def using nb n2 l1 l2 l3
      by (simp add: sub_write_at_before sub_write_at_same length_write_at)
    have s2: "sub b4 (r + 4) (r + 12) = putU64 (Seq f)"
      unfolding b4w b3w b2_def using nb n2 l1 l2 l3 b3w b2_def
      by (simp add: sub_write_at_before sub_write_at_same length_write_at)
    have s3: "sub b4 (r + 12) (r + 13) = [Closing f]"
      unfolding b4w b3w using nb n2 l1 l2 l3 b3w
      by (simp add: sub_write_at_before sub_write_at_same length_write_at)
    have s4: "sub b4 (r + 13) (r + 14) = [e]"
      unfolding b4w using nb n2 l1 l2 l3
      by (simp add: sub_write_at_same)
    have "sub b4 r (r + 14) = sub b4 r (r + 4) @ sub b4 (r + 4) (r + 12)
            @ sub b4 (r + 12) (r + 13) @ sub b4 (r + 13) (r + 14)"
      using sub_split[of r "r + 4" "r + 14" b4] sub_split[of "r + 4" "r + 12" "r + 14" b4]
        sub_split[of "r + 12" "r + 13" "r + 14" b4] by simp
    then show ?thesis by (simp add: s1 s2 s3 s4 hdr_bytes_def)
  qed
  have tk: "take (n - (r + HEADER_LEN)) body = body" using n2 by (simp add: HEADER_LEN_def)
  have nonce12: "sub b4 r (r + 12) = putU32 (StreamID f) @ putU64 (Seq f)"
  proof -
    have "sub b4 r (r + 14) = sub b4 r (r + 12) @ sub b4 (r + 12) (r + 14)"
      using sub_split[of r "r + 12" "r + 14" b4] by simp
    moreover have "length (sub b4 r (r + 12)) = 12" using l4 nb n2 by (simp add: length_sub)
    ultimately have "sub b4 r (r + 12) = take 12 (hdr_bytes f e)" using hd4 by (metis append_eq_conv_conj)
    then show ?thesis by (simp add: hdr_bytes_def)
  qed
  have code_b5: "(case pc of
                   None \<Rightarrow>
                     (if e \<noteq> 0
                      then write_at (write_at b4 (r + HEADER_LEN)
                                       (take (n - (r + HEADER_LEN)) (Payload f)))
                             (n - unat e) (rand_Read lib (unat e))
                      else write_at b4 (r + HEADER_LEN)
                             (take (n - (r + HEADER_LEN)) (Payload f)))
                 | Some c \<Rightarrow>
                     write_at b4 (r + HEADER_LEN)
                       (take (n - (r + HEADER_LEN)) (Seal c (sub b4 r (r + 12)) (Payload f)))) = b5"
  proof (cases pc)
    case None
    have tp: "take (n - (r + HEADER_LEN)) (Payload f) = Payload f" by (simp add: n_def)
    have body_eq: "body = Payload f @ rand_Read lib (unat e)"
      by (simp add: body_def obfs_body_def None e_def)
    have ne: "n - unat e = r + HEADER_LEN + length (Payload f)" by (simp add: n_def)
    show ?thesis
    proof (cases "e = 0")
      case True
      then show ?thesis using None by (simp add: tp b5_def body_eq rand_Read_def)
    next
      case False
      have "write_at (write_at b4 (r + HEADER_LEN) (Payload f)) (r + HEADER_LEN + length (Payload f))
              (rand_Read lib (unat e)) = write_at b4 (r + HEADER_LEN) (Payload f @ rand_Read lib (unat e))"
        by (rule write_at_twice) (use l4 nb in \<open>simp add: n_def\<close>)
      then show ?thesis using None False by (simp add: tp ne b5_def body_eq)
    qed
  next
    case (Some c)
    then show ?thesis by (simp add: nonce12 b5_def body_def obfs_body_def tk[unfolded body_def obfs_body_def Some, simplified])
  qed
  have l5: "length b5 = length buf"
    unfolding b5_def using l4 nb n2 by (simp add: length_write_at HEADER_LEN_def)
  have hd5: "sub b5 r (r + 14) = hdr_bytes f e"
    unfolding b5_def using l4 nb n2 hd4 by (simp add: sub_write_at_before HEADER_LEN_def)
  have bd5: "sub b5 (r + 14) n = body"
    unfolding b5_def using l4 nb n2 by (simp add: sub_write_at_same HEADER_LEN_def)
  have nc5: "sub b5 (n - 8) n = drop (length body - 8) body"
    using sub_tail[OF bd5, of 8] l5 nb n2 b8 by simp
  have ln: "length (sub b5 (n - 8) n) = 8" using nc5 b8 by simp
  have xk: "XORKeyStream lib (sub b5 r (r + HEADER_LEN)) (sub b5 (n - 8) n) key = Some h"
    using XORKeyStream_8[OF ln] by (simp add: h_def hd5 nc5 HEADER_LEN_def)
  have lh: "length h = 14" by (simp add: h_def)
  have l6: "length b6 = length buf"
    unfolding b6_def using l5 nb n2 lh by (simp add: length_write_at)
  have b6_eq: "b6 = take r buf @ h @ body @ drop n buf"
  proof -
    have t: "take r b6 = take r buf"
      unfolding b6_def b5_def b4w b3w b2_def b1_def using nb n2 l1 l2 l3 l4 l5 lh
      by (simp add: take_write_at length_write_at HEADER_LEN_def)
    have hh: "sub b6 r (r + 14) = h"
      unfolding b6_def using l5 nb n2 lh by (simp add: sub_write_at_same)
    have bb: "sub b6 (r + 14) n = body"
      unfolding b6_def using l5 nb n2 lh bd5 by (simp add: sub_write_at_after)
    have d: "drop n b6 = drop n buf"
      unfolding b6_def b5_def b4w b3w b2_def b1_def using nb n2 l1 l2 l3 l4 l5 lh
      by (simp add: drop_write_at length_write_at HEADER_LEN_def)
    have "b6 = take r b6 @ sub b6 r (r + 14) @ drop (r + 14) b6"
      by (rule whole_split) simp
    moreover have "drop (r + 14) b6 = sub b6 (r + 14) n @ drop n b6"
      by (rule drop_split) (simp add: n2)
    ultimately show ?thesis by (simp add: t hh bb d)
  qed
  have pl: "HEADER_LEN + (n - (r + HEADER_LEN)) = HEADER_LEN + length body"
    using n2 by (simp add: HEADER_LEN_def)
  have b7_eq: "(if rl then write_at (b6[0 := 23, 1 := 3, 2 := 3]) 3
                       (putU16 (word_of_nat (HEADER_LEN + (n - (r + HEADER_LEN)))))
               else b6) = obfs_wire lib key pc rl f @ drop n buf"
  proof (cases rl)
    case True
    then have r5: "r = 5" by (simp add: r_def)
    have "5 \<le> length b6" using l6 nb n2 r5 by simp
    then have "write_at (b6[0 := 23, 1 := 3, 2 := 3]) 3
                 (putU16 (word_of_nat (HEADER_LEN + length body)))
               = [23, 3, 3] @ putU16 (word_of_nat (HEADER_LEN + length body)) @ drop 5 b6"
      by (rule write_record_layer)
    moreover have "drop 5 b6 = h @ body @ drop n buf"
      using b6_eq r5 nb n2 by simp
    ultimately show ?thesis using True
      by (simp add: pl obfs_wire_def Let_def record_layer_def body_def[symmetric] e_def[symmetric] h_def[symmetric])
  next
    case False
    then have "r = 0" by (simp add: r_def)
    then show ?thesis using False b6_eq
      by (simp add: obfs_wire_def Let_def record_layer_def body_def[symmetric] e_def[symmetric] h_def[symmetric])
  qed
  have n8: "\<not> n - (r + HEADER_LEN) < 8" using n2 b8 by (simp add: HEADER_LEN_def)
  show ?thesis
    apply (simp only: MakeObfs_def Let_def)
    apply (fold e_def)
    apply (fold r_def)
    apply (fold n_def)
    apply (fold b1_def)
    apply (fold b2_def)
    apply (fold b3_def)
    apply (fold b4_def)
    apply (simp only: code_b5)
    apply (simp only: n_eq xk option.case)
    apply (fold b6_def)
    apply (simp only: b7_eq)
    using nb n8 apply simp
    done
qed

section \<open>The decoder on the store\<close>

lemma load_app: "sl_arr s = length h \<Longrightarrow> load (h @ [w]) s = sub w (sl_off s) (sl_off s + sl_len s)"
  by (simp add: load_def)

lemma load_old: "sl_arr s < length h \<Longrightarrow> load (h @ [w]) s = load h s"
  by (simp add: load_def nth_append)

lemma copy_app:
  "sl_arr s = length h \<Longrightarrow> copy (h @ [w]) s bs = h @ [write_at w (sl_off s) (take (sl_len s) bs)]"
  by (simp add: copy_def)

lemma length_load: "slice_ok h s \<Longrightarrow> length (load h s) = sl_len s"
  by (auto simp add: load_def slice_ok_def sub_def)

lemma sub_sub: "hi \<le> n \<Longrightarrow> sub (sub xs a (a + n)) lo hi = sub xs (a + lo) (a + hi)"
  by (simp add: sub_alt take_drop min_def add.commute)

lemma sub_all: "length xs \<le> hi \<Longrightarrow> sub xs 0 hi = xs"
  by (simp add: sub_def)

lemma sub_drop: "length xs \<le> hi \<Longrightarrow> sub xs lo hi = drop lo xs"
  by (simp add: sub_def)

lemma sub_append_left: "hi \<le> length xs \<Longrightarrow> sub (xs @ ys) lo hi = sub xs lo hi"
  by (simp add: sub_alt)

lemma sub_append_right: "length xs \<le> lo \<Longrightarrow> sub (xs @ ys) lo hi = sub ys (lo - length xs) (hi - length xs)"
  by (simp add: sub_def)


lemma uint_neg_iff: "(int n - uint (e::8 word) < 0) = (n < unat e)"
proof -
  have u: "unat e = nat (uint e)" by simp
  have p: "0 \<le> uint e" by simp
  show ?thesis unfolding u using p by linarith
qed

lemma int_minus_uint: "unat (e::8 word) \<le> n \<Longrightarrow> int n - uint e = int (n - unat e)"
proof -
  assume a: "unat e \<le> n"
  have u: "unat e = nat (uint e)" by simp
  have p: "0 \<le> uint e" by simp
  show ?thesis using a p unfolding u by linarith
qed

lemma MakeDeobfs_result:
  assumes ok: "slice_ok h inp"
  shows "\<exists>h' res. MakeDeobfs lib key pc rl h inp = (h', res) \<and> take (length h) h' = h
           \<and> length h' \<le> Suc (length h)
           \<and> map_sum id (read_frame h') res = deobfs_result lib key pc rl (load h inp)"
proof -
  define bs where "bs = load h inp"
  define r where "r = (if rl then 5 else 0::nat)"
  have L: "length bs = sl_len inp" unfolding bs_def by (rule length_load[OF ok])
  show ?thesis
  proof (cases "sl_len inp < r + HEADER_LEN + 8")
    case True
    then have "MakeDeobfs lib key pc rl h inp = (h, Inl (ErrInputTooShort (r + HEADER_LEN + 8)))"
      by (simp add: MakeDeobfs_def Let_def r_def)
    moreover have "deobfs_result lib key pc rl (load h inp) = Inl (ErrInputTooShort (r + HEADER_LEN + 8))"
      using True L by (simp add: deobfs_result_def Let_def r_def bs_def HEADER_LEN_def)
    ultimately show ?thesis by simp
  next
    case False
    then have len22: "r + 22 \<le> sl_len inp" by (simp add: HEADER_LEN_def)
    define m where "m = sl_len inp - r"
    have m22: "22 \<le> m" using len22 by (simp add: m_def)
    define w where "w = drop r bs"
    have lw: "length w = m" by (simp add: w_def L m_def)
    define peeled where "peeled = \<lparr>sl_arr = length h, sl_off = 0, sl_len = m, sl_cap = m\<rparr>"
    define h1 where "h1 = h @ [replicate m (0::byte)]"
    have mk: "make_slice h m = (h1, peeled)"
      by (simp add: make_slice_def peeled_def h1_def)
    define inTail where "inTail = \<lparr>sl_arr = sl_arr inp, sl_off = sl_off inp + r,
                                    sl_len = m, sl_cap = sl_cap inp - r\<rparr>"
    have rs0: "reslice inp (int r) (int (sl_len inp)) = Some inTail"
      using ok len22 by (simp add: reslice_def inTail_def slice_ok_def m_def nat_diff_distrib' flip: of_nat_diff)
    have ld: "load h1 inTail = w"
    proof -
      have "load h1 inTail = load h inTail"
        unfolding h1_def using ok by (intro load_old) (simp add: inTail_def slice_ok_def)
      also have "\<dots> = sub (h ! sl_arr inp) (sl_off inp + r) (sl_off inp + sl_len inp)"
        using len22 by (simp add: load_def inTail_def m_def)
      also have "\<dots> = drop r (sub (h ! sl_arr inp) (sl_off inp) (sl_off inp + sl_len inp))"
        by (simp add: sub_def drop_take add.commute)
      finally show ?thesis by (simp add: w_def bs_def load_def)
    qed
    define h2 where "h2 = h @ [w]"
    have c2: "copy h1 peeled w = h2"
      unfolding h1_def h2_def by (simp add: copy_app peeled_def write_at_def lw)
    define header where "header = \<lparr>sl_arr = length h, sl_off = 0, sl_len = 14, sl_cap = m\<rparr>"
    define pld where "pld = \<lparr>sl_arr = length h, sl_off = 14, sl_len = m - 14, sl_cap = m - 14\<rparr>"
    define nonce where "nonce = \<lparr>sl_arr = length h, sl_off = m - 8, sl_len = 8, sl_cap = m - (m - 8)\<rparr>"
    have rs1: "reslice peeled 0 (int HEADER_LEN) = Some header"
      using m22 by (simp add: reslice_def peeled_def header_def HEADER_LEN_def)
    have rs2: "reslice peeled (int HEADER_LEN) (int (sl_len peeled)) = Some pld"
      using m22 by (simp add: reslice_def peeled_def pld_def HEADER_LEN_def nat_diff_distrib' flip: of_nat_diff)
    have rs3: "reslice peeled (int (sl_len peeled) - 8) (int (sl_len peeled)) = Some nonce"
      using m22 by (simp add: reslice_def peeled_def nonce_def nat_diff_distrib')
    define region where "region = drop 14 w"
    have lr: "length region = m - 14" by (simp add: region_def lw)
    have ldh: "load h2 header = sub w 0 14"
      unfolding h2_def by (simp add: load_app header_def)
    have ldn: "load h2 nonce = drop (m - 8) w"
      unfolding h2_def using m22 lw by (simp add: load_app nonce_def sub_drop)
    have ln8: "length (load h2 nonce) = 8" using ldn lw m22 by simp
    define x where "x = deobfs_header lib key rl bs"
    have x_eq: "x = mask lib (sub w 0 14) (drop (m - 8) w) key"
    proof -
      have "sub bs r (r + 14) = sub w 0 14"
        by (simp add: w_def sub_def)
      moreover have "drop (length bs - 8) bs = drop (m - 8) w"
        using len22 L by (simp add: w_def m_def)
      ultimately show ?thesis by (simp add: x_def deobfs_header_def Let_def r_def)
    qed
    have lx: "length x = 14" using x_eq lw m22 by (simp add: sub_def)
    have xk: "XORKeyStream lib (load h2 header) (load h2 nonce) key = Some x"
      using XORKeyStream_8[OF ln8] by (simp add: ldh ldn x_eq)
    define h3 where "h3 = h @ [x @ region]"
    have c3: "copy h2 header x = h3"
      unfolding h2_def h3_def using lx lw m22
      by (simp add: copy_app header_def write_at_def region_def)
    have ld3: "load h3 header = x"
      unfolding h3_def using lx by (simp add: load_app header_def sub_def)
    have ldp: "load h3 pld = region"
      unfolding h3_def using lx lr by (simp add: load_app pld_def sub_def)
    define e where "e = x ! 13"
    have neg: "(int (sl_len pld) - uint e < 0) = (length region < unat e)"
      by (simp only: pld_def lr slice.simps uint_neg_iff)
    define k where "k = length region - unat e"
    have reg: "drop (r + 14) bs = region"
      by (simp add: region_def w_def add.commute)
    have dr: "deobfs_result lib key pc rl (load h inp) =
                (if length region < unat e then Inl ErrExtraLen
                 else (case pc of
                         None \<Rightarrow>
                           Inr \<lparr>StreamID = u32 (sub x 0 4), Seq = u64 (sub x 4 12),
                                Closing = x ! 12, Payload = take k region\<rparr>
                       | Some c \<Rightarrow>
                           (case Open c (sub x 0 12) region of
                              None \<Rightarrow> Inl ErrOpen
                            | Some pt \<Rightarrow>
                                Inr \<lparr>StreamID = u32 (sub x 0 4), Seq = u64 (sub x 4 12),
                                     Closing = x ! 12,
                                     Payload = take k (if length pt \<le> length region
                                                       then pt @ drop (length pt) region
                                                       else region)\<rparr>)))"
      apply (simp only: deobfs_result_def deobfs_tail_def Let_def bs_def[symmetric])
      apply (fold r_def)
      apply (fold x_def)
      apply (fold e_def)
      apply (simp only: reg)
      apply (fold k_def)
      using len22 L apply simp
      done
    have rsk: "length region \<ge> unat e \<Longrightarrow>
               reslice pld 0 (int (sl_len pld) - uint e)
               = Some \<lparr>sl_arr = length h, sl_off = 14, sl_len = k, sl_cap = m - 14\<rparr>"
    proof -
      assume a: "length region \<ge> unat e"
      have "int (m - 14) - uint e = int k"
        unfolding k_def using a lr int_minus_uint[of e "m - 14"] by simp
      moreover have "k \<le> m - 14" by (simp add: k_def lr)
      ultimately show ?thesis by (simp add: reslice_def pld_def)
    qed
    have ldk: "load (h @ [x @ y]) \<lparr>sl_arr = length h, sl_off = 14, sl_len = k, sl_cap = m - 14\<rparr>
               = take k y" for y
      using lx by (simp add: load_app sub_def)
    show ?thesis
    proof (cases "length region < unat e")
      case True
      have "MakeDeobfs lib key pc rl h inp = (h3, Inl ErrExtraLen)"
        apply (simp only: MakeDeobfs_def Let_def)
        apply (fold r_def)
        apply (simp only: False if_False)
        apply (fold m_def)
        apply (simp only: mk prod.case rs0 option.case ld c2 rs1 rs2 rs3 xk c3 ld3)
        apply (fold e_def)
        apply (simp only: neg True if_True)
        done
      then show ?thesis using True by (simp add: dr h3_def)
    next
      case ge: False
      then have ge': "unat e \<le> length region" by simp
      have step: "MakeDeobfs lib key pc rl h inp =
              (case pc of
                 None \<Rightarrow>
                   (case (if e = 0 then Some pld
                          else reslice pld 0 (int (sl_len pld) - uint e)) of
                      None \<Rightarrow> (h3, Inl Panic)
                    | Some outputPayload \<Rightarrow>
                        (h3,
                         Inr \<lparr>StreamID = u32 (sub x 0 4), Seq = u64 (sub x 4 12),
                               Closing = x ! 12, Payload = outputPayload\<rparr>))
               | Some c \<Rightarrow>
                   (case Open_in_place c h3 (sub x 0 12) pld of
                      (h4, True) \<Rightarrow>
                        (case reslice pld 0 (int (sl_len pld) - uint e) of
                           None \<Rightarrow> (h4, Inl Panic)
                         | Some outputPayload \<Rightarrow>
                             (h4,
                              Inr \<lparr>StreamID = u32 (sub x 0 4),
                                    Seq = u64 (sub x 4 12), Closing = x ! 12,
                                    Payload = outputPayload\<rparr>))
                    | (h4, False) \<Rightarrow> (h4, Inl ErrOpen)))"
        apply (simp only: MakeDeobfs_def Let_def)
        apply (fold r_def)
        apply (simp only: False if_False)
        apply (fold m_def)
        apply (simp only: mk prod.case rs0 option.case ld c2 rs1 rs2 rs3 xk c3 ld3)
        apply (fold e_def)
        apply (simp only: neg ge if_False)
        done
      define fr where "fr = (\<lambda>p::slice. \<lparr>StreamID = u32 (sub x 0 4), Seq = u64 (sub x 4 12),
                                          Closing = x ! 12, Payload = p\<rparr>)"
      define out where "out = \<lparr>sl_arr = length h, sl_off = 14, sl_len = k, sl_cap = m - 14\<rparr>"
      have rf: "read_frame (h @ [x @ y]) (fr out)
                = \<lparr>StreamID = u32 (sub x 0 4), Seq = u64 (sub x 4 12),
                   Closing = x ! 12, Payload = take k y\<rparr>" for y
        by (simp add: read_frame_def fr_def out_def ldk)
      show ?thesis
      proof (cases pc)
        case None
        have d: "deobfs_result lib key pc rl (load h inp)
                 = Inr \<lparr>StreamID = u32 (sub x 0 4), Seq = u64 (sub x 4 12),
                        Closing = x ! 12, Payload = take k region\<rparr>"
          unfolding dr using None ge by simp
        show ?thesis
        proof (cases "e = 0")
          case True
          then have kk: "k = length region" by (simp add: k_def)
          have md: "MakeDeobfs lib key pc rl h inp = (h3, Inr (fr pld))"
            unfolding step fr_def using None True by simp
          have "read_frame h3 (fr pld)
                = \<lparr>StreamID = u32 (sub x 0 4), Seq = u64 (sub x 4 12),
                   Closing = x ! 12, Payload = take k region\<rparr>"
            by (simp add: read_frame_def fr_def ldp kk)
          then show ?thesis unfolding md d by (simp add: h3_def)
        next
          case False
          have md: "MakeDeobfs lib key pc rl h inp = (h3, Inr (fr out))"
            unfolding step fr_def out_def using None False rsk[OF ge'] by simp
          show ?thesis unfolding md d using rf[of region] by (simp add: h3_def)
        qed
      next
        case (Some c)
        show ?thesis
        proof (cases "Open c (sub x 0 12) region")
          case None
          define h4 where "h4 = copy h3 pld (OpenScratch c (sub x 0 12) region)"
          have oip: "Open_in_place c h3 (sub x 0 12) pld = (h4, False)"
            using None by (simp add: Open_in_place_def ldp h4_def)
          have t4: "take (length h) h4 = h" "length h4 \<le> Suc (length h)"
            by (simp_all add: h4_def h3_def copy_app pld_def)
          have md: "MakeDeobfs lib key pc rl h inp = (h4, Inl ErrOpen)"
            unfolding step using Some oip by simp
          have d: "deobfs_result lib key pc rl (load h inp) = Inl ErrOpen"
            unfolding dr using Some None ge by simp
          show ?thesis unfolding md d using t4 by simp
        next
          case (Some pt)
          define y where "y = (if length pt \<le> length region
                               then pt @ drop (length pt) region else region)"
          have oip: "Open_in_place c h3 (sub x 0 12) pld = (h @ [x @ y], True)"
          proof (cases "length pt \<le> length region")
            case True
            have cp: "sl_cap pld = length region" by (simp add: pld_def lr)
            have "copy h3 (pld\<lparr>sl_len := length pt\<rparr>) pt = h @ [x @ pt @ drop (length pt) region]"
              unfolding h3_def using lx True by (simp add: copy_app pld_def write_at_def)
            then show ?thesis
              using Some True by (simp add: Open_in_place_def ldp cp y_def)
          next
            case False
            have cp: "sl_cap pld = length region" by (simp add: pld_def lr)
            have "Open_in_place c h3 (sub x 0 12) pld = (h3, True)"
              using Some False by (simp add: Open_in_place_def ldp cp)
            then show ?thesis using False by (simp add: y_def h3_def)
          qed
          have md: "MakeDeobfs lib key pc rl h inp = (h @ [x @ y], Inr (fr out))"
            unfolding step fr_def out_def using \<open>pc = Some c\<close> oip rsk[OF ge'] by simp
          have d: "deobfs_result lib key pc rl (load h inp)
                   = Inr \<lparr>StreamID = u32 (sub x 0 4), Seq = u64 (sub x 4 12),
                          Closing = x ! 12, Payload = take k y\<rparr>"
            unfolding dr y_def using \<open>pc = Some c\<close> Some ge by simp
          show ?thesis unfolding md d using rf[of y] by simp
        qed
      qed
    qed
  qed
qed

lemma whole_ok: "slice_ok [bs] (whole 0 (length bs))"
  by (simp add: slice_ok_def whole_def)

lemma load_whole: "load [bs] (whole 0 (length bs)) = bs"
  by (simp add: load_def whole_def sub_def)

lemma deobfs_bytes_eq: "deobfs_bytes lib key pc rl bs = deobfs_result lib key pc rl bs"
proof -
  obtain h' res where
    md: "MakeDeobfs lib key pc rl [bs] (whole 0 (length bs)) = (h', res)" and
    r: "map_sum id (read_frame h') res = deobfs_result lib key pc rl (load [bs] (whole 0 (length bs)))"
    using MakeDeobfs_result[OF whole_ok, of lib key pc rl bs] by blast
  show ?thesis
    using r by (cases res) (simp_all add: deobfs_bytes_def md load_whole)
qed

lemma mask_nth: "i < length inp \<Longrightarrow> mask lib inp nonce key ! i = inp ! i XOR salsa20_stream lib key nonce i"
  by (simp add: mask_def)

lemma mask_mask: "mask lib (mask lib inp nonce key) nonce key = inp"
  by (rule nth_equalityI) (simp_all add: mask_nth xor.assoc)

lemma mask_update:
  "i < length inp \<Longrightarrow>
   mask lib (inp[i := v]) nonce key = (mask lib inp nonce key)[i := v XOR salsa20_stream lib key nonce i]"
  by (rule nth_equalityI) (auto simp add: mask_nth nth_list_update)

lemma deobfs_result_parts:
  assumes P: "length P = (if rl then 5 else 0)" and H: "length H = 14" and B: "8 \<le> length body"
  shows "deobfs_result lib key pc rl (P @ H @ body)
         = deobfs_tail pc (mask lib H (drop (length body - 8) body) key) body"
proof -
  define r where "r = (if rl then 5 else 0::nat)"
  have lp: "length P = r" using P by (simp add: r_def)
  have hd: "deobfs_header lib key rl (P @ H @ body) = mask lib H (drop (length body - 8) body) key"
  proof -
    have "sub (P @ H @ body) r (r + 14) = H" using lp H by (simp add: sub_def)
    moreover have "drop (length (P @ H @ body) - 8) (P @ H @ body) = drop (length body - 8) body"
      using lp H B by simp
    ultimately show ?thesis by (simp add: deobfs_header_def Let_def r_def[symmetric])
  qed
  have rg: "drop (r + 14) (P @ H @ body) = body" using lp H by simp
  have ns: "\<not> length (P @ H @ body) < r + 22" using lp H B by simp
  show ?thesis
    apply (simp only: deobfs_result_def Let_def)
    apply (fold r_def)
    apply (simp only: hd rg ns if_False)
    done
qed

lemma deobfs_result_not_Panic: "deobfs_result lib key pc rl bs \<noteq> Inl Panic"
  by (simp add: deobfs_result_def deobfs_tail_def Let_def split: option.splits)

lemma length_obfs_wire:
  "cipher_ok pc \<Longrightarrow> length (obfs_wire lib key pc rl f) = usefulLen_of pc rl f"
  by (simp add: obfs_wire_def Let_def record_layer_def usefulLen_of_def length_obfs_body HEADER_LEN_def)

lemma hdr_bytes_fields:
  "u32 (sub (hdr_bytes f e) 0 4) = StreamID f"
  "u64 (sub (hdr_bytes f e) 4 12) = Seq f"
  "hdr_bytes f e ! 12 = Closing f"
  "hdr_bytes f e ! 13 = e"
  "sub (hdr_bytes f e) 0 12 = putU32 (StreamID f) @ putU64 (Seq f)"
  by (simp_all add: hdr_bytes_def sub_def u32_putU32 u64_putU64 nth_append)

section \<open>Decoding what the encoder wrote\<close>

lemma mask_tamper:
  assumes "i < length inp"
  shows "mask lib ((mask lib inp nonce key)[i := mask lib inp nonce key ! i XOR d]) nonce key
         = inp[i := inp ! i XOR d]"
proof -
  have "mask lib ((mask lib inp nonce key)[i := mask lib inp nonce key ! i XOR d]) nonce key
        = (mask lib (mask lib inp nonce key) nonce key)
            [i := (mask lib inp nonce key ! i XOR d) XOR salsa20_stream lib key nonce i]"
    using assms by (simp add: mask_update)
  also have "(mask lib inp nonce key ! i XOR d) XOR salsa20_stream lib key nonce i = inp ! i XOR d"
    using assms by (simp add: mask_nth xor.assoc xor.left_commute)
  finally show ?thesis by (simp add: mask_mask)
qed

lemma frame_eq:
  "\<lparr>StreamID = StreamID f, Seq = Seq f, Closing = Closing f, Payload = Payload f\<rparr> = (f :: byte list Frame)"
  by simp

lemma obfs_wire_parts:
  "obfs_wire lib key pc rl f
   = record_layer rl (length (obfs_body lib pc f))
     @ mask lib (hdr_bytes f (obfs_extraLen pc f))
         (drop (length (obfs_body lib pc f) - 8) (obfs_body lib pc f)) key
     @ obfs_body lib pc f"
  by (simp add: obfs_wire_def Let_def)

lemma length_record_layer: "length (record_layer rl n) = (if rl then 5 else 0)"
  by (simp add: record_layer_def)

lemma deobfs_obfs_wire:
  assumes ok: "cipher_ok pc"
  shows "deobfs_result lib key pc rl (obfs_wire lib key pc rl f)
         = deobfs_tail pc (hdr_bytes f (obfs_extraLen pc f)) (obfs_body lib pc f)"
  unfolding obfs_wire_parts
  by (subst deobfs_result_parts)
     (simp_all add: length_record_layer obfs_body_ge8[OF ok] mask_mask)

lemma deobfs_obfs_wire_tampered:
  assumes ok: "cipher_ok pc" and i: "i < 14"
  shows "deobfs_result lib key pc rl
           ((obfs_wire lib key pc rl f)
              [(if rl then 5 else 0) + i := obfs_wire lib key pc rl f ! ((if rl then 5 else 0) + i) XOR d])
         = deobfs_tail pc ((hdr_bytes f (obfs_extraLen pc f))
                             [i := hdr_bytes f (obfs_extraLen pc f) ! i XOR d])
             (obfs_body lib pc f)"
proof -
  define P where "P = record_layer rl (length (obfs_body lib pc f))"
  define body where "body = obfs_body lib pc f"
  define hdr where "hdr = hdr_bytes f (obfs_extraLen pc f)"
  define H where "H = mask lib hdr (drop (length body - 8) body) key"
  have w: "obfs_wire lib key pc rl f = P @ H @ body"
    by (simp add: obfs_wire_parts P_def H_def body_def hdr_def)
  have lP: "length P = (if rl then 5 else 0)" by (simp add: P_def length_record_layer)
  have lH: "length H = 14" by (simp add: H_def hdr_def)
  have b8: "8 \<le> length body" unfolding body_def by (rule obfs_body_ge8[OF ok])
  have upd: "(P @ H @ body)[(if rl then 5 else 0) + i := (P @ H @ body) ! ((if rl then 5 else 0) + i) XOR d]
             = P @ H[i := H ! i XOR d] @ body"
    using lP lH i by (simp add: list_update_append nth_append)
  have "deobfs_result lib key pc rl (P @ H[i := H ! i XOR d] @ body)
        = deobfs_tail pc (mask lib (H[i := H ! i XOR d]) (drop (length body - 8) body) key) body"
    by (rule deobfs_result_parts) (simp_all add: lP lH b8)
  moreover have "mask lib (H[i := H ! i XOR d]) (drop (length body - 8) body) key
                 = hdr[i := hdr ! i XOR d]"
    unfolding H_def by (rule mask_tamper) (simp add: hdr_def i)
  ultimately show ?thesis
    unfolding w upd by (simp add: hdr_def body_def)
qed

lemma deobfs_tail_honest:
  assumes ok: "cipher_ok pc"
  shows "deobfs_tail pc (hdr_bytes f (obfs_extraLen pc f)) (obfs_body lib pc f) = Inr f"
proof (cases pc)
  case None
  have "take (length (Payload f)) (obfs_body lib None f) = Payload f"
    by (simp add: obfs_body_def)
  then show ?thesis
    using None length_obfs_body[OF ok, of lib f]
    by (simp add: deobfs_tail_def Let_def hdr_bytes_fields)
next
  case (Some c)
  then have a: "aead_ok c" using ok by (simp add: cipher_ok_def)
  have l12: "length (putU32 (StreamID f) @ putU64 (Seq f)) = 12" by simp
  have op: "Open c (putU32 (StreamID f) @ putU64 (Seq f)) (obfs_body lib (Some c) f) = Some (Payload f)"
    using a l12 unfolding aead_ok_def obfs_body_def by simp
  show ?thesis
    using Some length_obfs_body[OF ok, of lib f] op
    by (simp add: deobfs_tail_def Let_def hdr_bytes_fields)
qed

lemma obfs_then_deobfs:
  assumes ok: "cipher_ok pc" and fits: "usefulLen_of pc rl f \<le> length buf"
  shows "MakeObfs lib key pc rl f buf
           = (obfs_wire lib key pc rl f @ drop (usefulLen_of pc rl f) buf, Inr (usefulLen_of pc rl f))"
    and "take (usefulLen_of pc rl f) (fst (MakeObfs lib key pc rl f buf)) = obfs_wire lib key pc rl f"
    and "deobfs_bytes lib key pc rl (take (usefulLen_of pc rl f) (fst (MakeObfs lib key pc rl f buf))) = Inr f"
proof -
  show 1: "MakeObfs lib key pc rl f buf
           = (obfs_wire lib key pc rl f @ drop (usefulLen_of pc rl f) buf, Inr (usefulLen_of pc rl f))"
    by (rule MakeObfs_wire[OF ok fits])
  show 2: "take (usefulLen_of pc rl f) (fst (MakeObfs lib key pc rl f buf)) = obfs_wire lib key pc rl f"
    by (simp add: 1 length_obfs_wire[OF ok])
  show "deobfs_bytes lib key pc rl (take (usefulLen_of pc rl f) (fst (MakeObfs lib key pc rl f buf))) = Inr f"
    by (simp only: 2 deobfs_bytes_eq deobfs_obfs_wire[OF ok] deobfs_tail_honest[OF ok])
qed

section \<open>The test double satisfies the cipher hypotheses\<close>

lemma length_test_tag: "length (test_tag nonce p) = 16"
  by (simp add: test_tag_def)

lemma test_aead_ok: "aead_ok test_aead"
proof -
  have "test_open nonce (test_seal nonce p) = Some p" for nonce p
  proof -
    have "map (\<lambda>b. b XOR 0xA5) (map (\<lambda>b. b XOR 0xA5) p) = p"
      by (simp add: o_def xor.assoc) 
    then show ?thesis
      by (simp add: test_open_def test_seal_def length_test_tag Let_def)
  qed
  then show ?thesis
    by (simp add: aead_ok_def test_aead_def test_seal_def length_test_tag)
qed

lemma test_cipher_ok: "cipher_ok (Some test_aead)"
  by (simp add: cipher_ok_def test_aead_ok)

lemma plain_cipher_ok: "cipher_ok None"
  by (simp add: cipher_ok_def)

lemma MakeObfs_too_small:
  "length buf < usefulLen_of pc rl f \<Longrightarrow> MakeObfs lib key pc rl f buf = (buf, Inl ErrBufferTooSmall)"
  by (simp add: MakeObfs_def Let_def usefulLen_of_def)

lemma usefulLen_pos: "0 < usefulLen_of pc rl f"
  by (simp add: usefulLen_of_def HEADER_LEN_def)

lemma extraLen_plain_ge8: "8 \<le> length (Payload f) \<Longrightarrow> obfs_extraLen None f = 0"
  by (simp add: obfs_extraLen_def)

lemma unat_extraLen_mod: "unat (obfs_extraLen (Some c) f) = Overhead c mod 256"
  by (simp add: obfs_extraLen_def unat_of_nat)


section \<open>The record layer prefix, the cipher constructors and tampered headers\<close>

lemma be_value_putU16: "be_value (putU16 v) = unat v"
proof -
  have hi: "unat (ucast (drop_bit 8 v) :: byte) = unat v div 256"
  proof -
    have "unat (drop_bit 8 v) = unat v div 256"
      by (simp add: drop_bit_eq_div unat_div)
    moreover have "unat v div 256 < 256"
      using unsigned_less[of v, where 'a=nat] by simp
    ultimately show ?thesis by (simp add: unsigned_ucast_eq take_bit_eq_mod)
  qed
  have lo: "unat (ucast v :: byte) = unat v mod 256"
    by (simp add: unsigned_ucast_eq take_bit_eq_mod)
  show ?thesis by (simp add: be_value_def putU16_def hi lo)
qed

lemma obfs_prefix:
  assumes ok: "cipher_ok pc" and fits: "usefulLen_of pc True f \<le> length buf"
  shows "take 5 (fst (MakeObfs lib key pc True f buf))
         = [0x17, 0x03, 0x03]
           @ putU16 (of_nat (HEADER_LEN + (length (Payload f) + unat (obfs_extraLen pc f))))"
  by (simp add: MakeObfs_wire[OF ok fits] obfs_wire_parts record_layer_def
        length_obfs_body[OF ok])

lemma obfs_prefix_fields:
  assumes ok: "cipher_ok pc" and fits: "usefulLen_of pc True f \<le> length buf"
  shows "sub (fst (MakeObfs lib key pc True f buf)) 0 3 = [0x17, 0x03, 0x03]"
    and "be_value (sub (fst (MakeObfs lib key pc True f buf)) 3 5)
         = (14 + length (Payload f) + unat (obfs_extraLen pc f)) mod 65536"
proof -
  define b where "b = fst (MakeObfs lib key pc True f buf)"
  define v :: "16 word" where
    "v = of_nat (HEADER_LEN + (length (Payload f) + unat (obfs_extraLen pc f)))"
  have t5: "take 5 b = [0x17, 0x03, 0x03] @ putU16 v"
    unfolding b_def v_def by (rule obfs_prefix[OF ok fits])
  have "take 3 (take 5 b) = [0x17, 0x03, 0x03]" unfolding t5 by simp
  then have "sub b 0 3 = [0x17, 0x03, 0x03]" by (simp add: sub_0)
  then show "sub (fst (MakeObfs lib key pc True f buf)) 0 3 = [0x17, 0x03, 0x03]"
    by (simp add: b_def)
  have "sub b 3 5 = drop 3 (take 5 b)" by (simp add: sub_alt)
  then have "sub b 3 5 = putU16 v" unfolding t5 by simp
  then have "be_value (sub b 3 5) = unat v" by (simp add: be_value_putU16)
  also have "\<dots> = (14 + length (Payload f) + unat (obfs_extraLen pc f)) mod 65536"
    by (simp only: v_def unat_of_nat HEADER_LEN_def) (simp add: add.assoc)
  finally show "be_value (sub (fst (MakeObfs lib key pc True f buf)) 3 5)
         = (14 + length (Payload f) + unat (obfs_extraLen pc f)) mod 65536"
    by (simp add: b_def)
qed

lemma GenerateObfs_aes:
  assumes "aes_NewCipher lib sessionKey = Inr blk" and "cipher_NewGCM lib blk = Inr c"
  shows "GenerateObfs lib E_METHOD_AES_GCM sessionKey hasRecordLayer
         = (Some \<lparr>Obfs = MakeObfs lib (salsaKey_of sessionKey) (Some c) hasRecordLayer,
                  Deobfs = MakeDeobfs lib (salsaKey_of sessionKey) (Some c) hasRecordLayer,
                  SessionKey = sessionKey\<rparr>, None)"
  using assms
  by (simp add: GenerateObfs_def Let_def E_METHOD_AES_GCM_def E_METHOD_PLAIN_def)

lemma hdr_bytes_closing:
  "(hdr_bytes f e)[12 := v] = hdr_bytes (f\<lparr>Closing := v\<rparr>) e"
  by (simp add: hdr_bytes_def list_update_append)

lemma obfs_body_closing: "obfs_body lib pc (f\<lparr>Closing := v\<rparr>) = obfs_body lib pc f"
  by (simp add: obfs_body_def obfs_extraLen_def split: option.splits)

lemma obfs_extraLen_closing: "obfs_extraLen pc (f\<lparr>Closing := v\<rparr>) = obfs_extraLen pc f"
  by (simp add: obfs_extraLen_def split: option.splits)

lemma closing_tamper:
  assumes ok: "cipher_ok pc" and fits: "usefulLen_of pc rl f \<le> length buf"
  shows "deobfs_bytes lib key pc rl
           ((take (usefulLen_of pc rl f) (fst (MakeObfs lib key pc rl f buf)))
              [(if rl then 5 else 0) + 12 :=
                 take (usefulLen_of pc rl f) (fst (MakeObfs lib key pc rl f buf))
                   ! ((if rl then 5 else 0) + 12) XOR d])
         = Inr (f\<lparr>Closing := Closing f XOR d\<rparr>)"
proof -
  define g where "g = f\<lparr>Closing := Closing f XOR d\<rparr>"
  have "deobfs_tail pc ((hdr_bytes f (obfs_extraLen pc f))[12 := hdr_bytes f (obfs_extraLen pc f) ! 12 XOR d])
          (obfs_body lib pc f)
        = deobfs_tail pc (hdr_bytes g (obfs_extraLen pc g)) (obfs_body lib pc g)"
    by (simp add: g_def hdr_bytes_closing obfs_body_closing obfs_extraLen_closing hdr_bytes_fields)
  also have "\<dots> = Inr g" by (rule deobfs_tail_honest[OF ok])
  finally show ?thesis
    unfolding obfs_then_deobfs(2)[OF ok fits] deobfs_bytes_eq g_def
    using deobfs_obfs_wire_tampered[OF ok, of 12 lib key rl f d] by simp
qed

lemma hdr_bytes_extraLen: "(hdr_bytes f e)[13 := v] = hdr_bytes f v"
  by (simp add: hdr_bytes_def list_update_append)

lemma extraLen_tamper:
  assumes a: "aead_ok c" and fits: "usefulLen_of (Some c) rl f \<le> length buf"
      and le: "unat (obfs_extraLen (Some c) f XOR d) \<le> length (Payload f) + Overhead c"
  shows "deobfs_bytes lib key (Some c) rl
           ((take (usefulLen_of (Some c) rl f) (fst (MakeObfs lib key (Some c) rl f buf)))
              [(if rl then 5 else 0) + 13 :=
                 take (usefulLen_of (Some c) rl f) (fst (MakeObfs lib key (Some c) rl f buf))
                   ! ((if rl then 5 else 0) + 13) XOR d])
         = Inr (f\<lparr>Payload :=
                   take (length (Payload f) + Overhead c - unat (obfs_extraLen (Some c) f XOR d))
                     (Payload f @ drop (length (Payload f)) (obfs_body lib (Some c) f))\<rparr>)"
proof -
  have ok: "cipher_ok (Some c)" using a by (simp add: cipher_ok_def)
  define e' where "e' = obfs_extraLen (Some c) f XOR d"
  define body where "body = obfs_body lib (Some c) f"
  have lb: "length body = length (Payload f) + Overhead c"
    unfolding body_def using length_obfs_body[OF ok, of lib f] unat_extraLen_aead[OF a, of f] by simp
  have l12: "length (putU32 (StreamID f) @ putU64 (Seq f)) = 12" by simp
  have op: "Open c (putU32 (StreamID f) @ putU64 (Seq f)) body = Some (Payload f)"
    using a l12 unfolding aead_ok_def obfs_body_def body_def by simp
  have t: "deobfs_tail (Some c) (hdr_bytes f e') body
           = Inr (f\<lparr>Payload := take (length (Payload f) + Overhead c - unat e')
                                  (Payload f @ drop (length (Payload f)) body)\<rparr>)"
    using le op lb by (simp add: deobfs_tail_def Let_def hdr_bytes_fields e'_def)
  have "deobfs_tail (Some c)
          ((hdr_bytes f (obfs_extraLen (Some c) f))
             [13 := hdr_bytes f (obfs_extraLen (Some c) f) ! 13 XOR d]) body
        = deobfs_tail (Some c) (hdr_bytes f e') body"
    by (simp add: hdr_bytes_extraLen hdr_bytes_fields e'_def)
  then show ?thesis
    unfolding obfs_then_deobfs(2)[OF ok fits] deobfs_bytes_eq
    using deobfs_obfs_wire_tampered[OF ok, of 13 lib key rl f d] t
    by (simp add: body_def e'_def)
qed

section \<open>Altered nonces and flipped payload bits\<close>








section \<open>The claims\<close>

text \<open>In the theorems below \<open>payloadCipher = None\<close> is the plain method and
  \<open>payloadCipher = Some c\<close> an AEAD method (AES-GCM or ChaCha20-Poly1305, as
  \<open>GenerateObfs\<close> builds them); \<open>cipher_ok\<close> asks of \<open>c\<close> what both ciphers provide.
  \<open>deobfs_bytes\<close> runs \<open>MakeDeobfs\<close> on a store that holds the input and reads the
  returned frame out of it.\<close>



text \<open>C6 (length contract of the encoder). \<open>usefulLen\<close> is prefix length + 14 + payload
  length + \<open>extraLen\<close>. A buffer shorter than that is rejected with the buffer error and
  returned as it was; in particular the empty buffer is rejected for every frame. A
  buffer of at least \<open>usefulLen\<close> bytes makes the encoder return exactly \<open>usefulLen\<close>.
  The buffer's capacity is its length here: the code compares \<open>len(buf)\<close>.\<close>

theorem obfs_length_contract:
  assumes "cipher_ok payloadCipher"
  shows "(length buf < usefulLen_of payloadCipher hasRecordLayer f \<longrightarrow>
            MakeObfs lib salsaKey payloadCipher hasRecordLayer f buf = (buf, Inl ErrBufferTooSmall))
         \<and> (usefulLen_of payloadCipher hasRecordLayer f \<le> length buf \<longrightarrow>
            snd (MakeObfs lib salsaKey payloadCipher hasRecordLayer f buf)
              = Inr (usefulLen_of payloadCipher hasRecordLayer f))
         \<and> MakeObfs lib salsaKey payloadCipher hasRecordLayer f [] = ([], Inl ErrBufferTooSmall)
         \<and> usefulLen_of payloadCipher hasRecordLayer f
             = (if hasRecordLayer then 5 else 0) + 14 + length (Payload f)
               + unat (obfs_extraLen payloadCipher f)"
proof -
  have "MakeObfs lib salsaKey payloadCipher hasRecordLayer f [] = ([], Inl ErrBufferTooSmall)"
    by (rule MakeObfs_too_small) (simp add: usefulLen_pos)
  moreover have "usefulLen_of payloadCipher hasRecordLayer f \<le> length buf \<Longrightarrow>
            snd (MakeObfs lib salsaKey payloadCipher hasRecordLayer f buf)
              = Inr (usefulLen_of payloadCipher hasRecordLayer f)"
    using MakeObfs_wire[OF assms] by simp
  ultimately show ?thesis
    by (simp add: MakeObfs_too_small usefulLen_of_def HEADER_LEN_def)
qed

theorem obfs_length_contract_witness:
  "cipher_ok None
   \<and> length (replicate 4 (0::byte)) < usefulLen_of None True test_frame
   \<and> MakeObfs test_lib test_key None True test_frame (replicate 4 0)
       = (replicate 4 0, Inl ErrBufferTooSmall)
   \<and> usefulLen_of None True test_frame \<le> length (replicate 40 (0::byte))
   \<and> snd (MakeObfs test_lib test_key None True test_frame (replicate 40 0)) = Inr 27
   \<and> MakeObfs test_lib test_key None True test_frame [] = ([], Inl ErrBufferTooSmall)"
proof -
  have n: "usefulLen_of None True test_frame = 27"
    by (simp add: usefulLen_of_def obfs_extraLen_def test_frame_def HEADER_LEN_def)
  show ?thesis
    using obfs_length_contract[OF plain_cipher_ok, of "replicate 4 0" True test_frame test_lib test_key]
          obfs_length_contract[OF plain_cipher_ok, of "replicate 40 0" True test_frame test_lib test_key]
          plain_cipher_ok
    by (simp add: n)
qed

text \<open>C7 (\<open>extraLen\<close>). Under the plain method \<open>extraLen\<close> is 8 minus the payload length for
  payloads of 0 to 7 bytes and 0 from 8 bytes on; under an AEAD it is the cipher's
  overhead (as a \<open>uint8\<close>, so for overheads below 256), 16 for the two supported ciphers;
  and the payload that comes back from decoding an encoded frame has the length of the
  original payload.\<close>

theorem extraLen_contract:
  "(length (Payload f) < 8 \<longrightarrow> unat (obfs_extraLen None f) = 8 - length (Payload f))
   \<and> (8 \<le> length (Payload f) \<longrightarrow> obfs_extraLen None f = 0)
   \<and> (Overhead c < 256 \<longrightarrow> unat (obfs_extraLen (Some c) f) = Overhead c)
   \<and> (Overhead c = 16 \<longrightarrow> obfs_extraLen (Some c) f = 16)
   \<and> (cipher_ok payloadCipher \<and> usefulLen_of payloadCipher hasRecordLayer f \<le> length buf \<longrightarrow>
        (\<exists>g. deobfs_bytes lib salsaKey payloadCipher hasRecordLayer
                (take (usefulLen_of payloadCipher hasRecordLayer f)
                   (fst (MakeObfs lib salsaKey payloadCipher hasRecordLayer f buf))) = Inr g
              \<and> length (Payload g) = length (Payload f)))"
proof -
  have 1: "length (Payload f) < 8 \<longrightarrow> unat (obfs_extraLen None f) = 8 - length (Payload f)"
    by (simp add: unat_extraLen_plain)
  have 2: "8 \<le> length (Payload f) \<longrightarrow> obfs_extraLen None f = 0"
    by (simp add: extraLen_plain_ge8)
  have 3: "Overhead c < 256 \<longrightarrow> unat (obfs_extraLen (Some c) f) = Overhead c"
    by (simp add: unat_extraLen_mod)
  have 4: "Overhead c = 16 \<longrightarrow> obfs_extraLen (Some c) f = 16"
    by (simp add: obfs_extraLen_def)
  have 5: "cipher_ok payloadCipher \<and> usefulLen_of payloadCipher hasRecordLayer f \<le> length buf \<longrightarrow>
        (\<exists>g. deobfs_bytes lib salsaKey payloadCipher hasRecordLayer
                (take (usefulLen_of payloadCipher hasRecordLayer f)
                   (fst (MakeObfs lib salsaKey payloadCipher hasRecordLayer f buf))) = Inr g
              \<and> length (Payload g) = length (Payload f))"
    using obfs_then_deobfs(3) by blast
  show ?thesis using 1 2 3 4 5 by blast
qed

theorem extraLen_contract_witness:
  "length (Payload test_frame) < 8
   \<and> unat (obfs_extraLen None test_frame) = 4
   \<and> 8 \<le> length (Payload (test_frame\<lparr>Payload := replicate 9 1\<rparr>))
   \<and> obfs_extraLen None (test_frame\<lparr>Payload := replicate 9 1\<rparr>) = 0
   \<and> Overhead test_aead = 16
   \<and> obfs_extraLen (Some test_aead) test_frame = 16
   \<and> cipher_ok (Some test_aead)
   \<and> usefulLen_of (Some test_aead) False test_frame \<le> length (replicate 34 (0::byte))
   \<and> (\<exists>g. deobfs_bytes test_lib test_key (Some test_aead) False
              (take (usefulLen_of (Some test_aead) False test_frame)
                 (fst (MakeObfs test_lib test_key (Some test_aead) False test_frame
                         (replicate 34 0)))) = Inr g
           \<and> length (Payload g) = length (Payload test_frame))"
proof -
  have n: "usefulLen_of (Some test_aead) False test_frame = 34"
    by (simp add: usefulLen_of_def obfs_extraLen_def test_aead_def test_frame_def HEADER_LEN_def)
  have a: "length (Payload test_frame) = 4" by (simp add: test_frame_def)
  have o: "Overhead test_aead = 16" by (simp add: test_aead_def)
  show ?thesis
    using extraLen_contract[of test_frame test_aead "Some test_aead" False "replicate 34 0"
            test_lib test_key]
          extraLen_contract[of "test_frame\<lparr>Payload := replicate 9 1\<rparr>" test_aead None False "[]"
            test_lib test_key]
          test_cipher_ok
    by (simp add: n a o)
qed

text \<open>C8 (malformed input). For every input byte string the decoder returns a frame or an
  error value: an input shorter than prefix length + 22 gives the length error, an input
  whose unmasked \<open>extraLen\<close> byte exceeds the bytes after the header gives the
  extra-length error, and no input, on any store, makes a slice expression or the key
  stream call panic.\<close>

theorem deobfs_total:
  "(length bs < (if hasRecordLayer then 5 else 0) + 22 \<longrightarrow>
      deobfs_bytes lib salsaKey payloadCipher hasRecordLayer bs
        = Inl (ErrInputTooShort ((if hasRecordLayer then 5 else 0) + 22)))
   \<and> ((if hasRecordLayer then 5 else 0) + 22 \<le> length bs
       \<and> length bs - ((if hasRecordLayer then 5 else 0) + 14)
           < unat (deobfs_header lib salsaKey hasRecordLayer bs ! 13) \<longrightarrow>
      deobfs_bytes lib salsaKey payloadCipher hasRecordLayer bs = Inl ErrExtraLen)
   \<and> deobfs_bytes lib salsaKey payloadCipher hasRecordLayer bs \<noteq> Inl Panic
   \<and> (slice_ok h inp \<longrightarrow>
        snd (MakeDeobfs lib salsaKey payloadCipher hasRecordLayer h inp) \<noteq> Inl Panic)"
proof -
  have 1: "length bs < (if hasRecordLayer then 5 else 0) + 22 \<longrightarrow>
      deobfs_bytes lib salsaKey payloadCipher hasRecordLayer bs
        = Inl (ErrInputTooShort ((if hasRecordLayer then 5 else 0) + 22))"
    by (simp add: deobfs_bytes_eq deobfs_result_def Let_def)
  have 2: "(if hasRecordLayer then 5 else 0) + 22 \<le> length bs
       \<and> length bs - ((if hasRecordLayer then 5 else 0) + 14)
           < unat (deobfs_header lib salsaKey hasRecordLayer bs ! 13) \<longrightarrow>
      deobfs_bytes lib salsaKey payloadCipher hasRecordLayer bs = Inl ErrExtraLen"
    by (simp add: deobfs_bytes_eq deobfs_result_def deobfs_tail_def Let_def)
  have 3: "deobfs_bytes lib salsaKey payloadCipher hasRecordLayer bs \<noteq> Inl Panic"
    by (simp add: deobfs_bytes_eq deobfs_result_not_Panic)
  have 4: "slice_ok h inp \<longrightarrow>
        snd (MakeDeobfs lib salsaKey payloadCipher hasRecordLayer h inp) \<noteq> Inl Panic"
  proof
    assume ok: "slice_ok h inp"
    obtain h' res where
      md: "MakeDeobfs lib salsaKey payloadCipher hasRecordLayer h inp = (h', res)" and
      r: "map_sum id (read_frame h') res
            = deobfs_result lib salsaKey payloadCipher hasRecordLayer (load h inp)"
      using MakeDeobfs_result[OF ok, of lib salsaKey payloadCipher hasRecordLayer] by blast
    have "res \<noteq> Inl Panic"
    proof
      assume "res = Inl Panic"
      then have "deobfs_result lib salsaKey payloadCipher hasRecordLayer (load h inp) = Inl Panic"
        using r by simp
      then show False by (simp add: deobfs_result_not_Panic)
    qed
    then show "snd (MakeDeobfs lib salsaKey payloadCipher hasRecordLayer h inp) \<noteq> Inl Panic"
      by (simp add: md)
  qed
  show ?thesis using 1 2 3 4 by blast
qed

theorem deobfs_total_witness:
  "length (replicate 5 (0::byte)) < (if False then 5 else 0) + 22
   \<and> deobfs_bytes test_lib test_key None False (replicate 5 0) = Inl (ErrInputTooShort 22)
   \<and> (if False then 5 else 0) + 22 \<le> length test_wire_flipped
   \<and> length test_wire_flipped - ((if False then 5 else 0) + 14)
        < unat (deobfs_header test_lib test_key False test_wire_flipped ! 13)
   \<and> deobfs_bytes test_lib test_key (Some test_aead) False test_wire_flipped = Inl ErrExtraLen
   \<and> slice_ok [test_wire] (whole 0 34)
   \<and> snd (MakeDeobfs test_lib test_key (Some test_aead) False [test_wire] (whole 0 34))
        \<noteq> Inl Panic"
proof -
  have a: "length (replicate 5 (0::byte)) < (if False then 5 else 0) + 22" by simp
  have b: "(if False then 5 else 0) + 22 \<le> length test_wire_flipped
           \<and> length test_wire_flipped - ((if False then 5 else 0) + 14)
               < unat (deobfs_header test_lib test_key False test_wire_flipped ! 13)"
    by code_simp
  have c: "slice_ok [test_wire] (whole 0 34)"
    by (simp add: slice_ok_def whole_def test_wire_def)
  show ?thesis
    using deobfs_total[of "replicate 5 0" False test_lib test_key None "[test_wire]" "whole 0 34"]
          deobfs_total[of test_wire_flipped False test_lib test_key "Some test_aead"
                          "[test_wire]" "whole 0 34"]
          a b c
    by simp
qed

text \<open>C10 (the input is not written). On every store and for every input slice that lies
  inside one of its arrays, the decoder leaves every array that existed before the call as
  it was, whether it succeeds or fails, so the caller's input bytes are unchanged; the
  store grows by at most one array, the working copy that is de-obfuscated in place.\<close>

theorem deobfs_keeps_input:
  assumes "slice_ok h inp"
  shows "take (length h) (fst (MakeDeobfs lib salsaKey payloadCipher hasRecordLayer h inp)) = h
         \<and> length (fst (MakeDeobfs lib salsaKey payloadCipher hasRecordLayer h inp)) \<le> Suc (length h)
         \<and> load (fst (MakeDeobfs lib salsaKey payloadCipher hasRecordLayer h inp)) inp = load h inp"
proof -
  obtain h' res where
    md: "MakeDeobfs lib salsaKey payloadCipher hasRecordLayer h inp = (h', res)" and
    t: "take (length h) h' = h" and l: "length h' \<le> Suc (length h)"
    using MakeDeobfs_result[OF assms, of lib salsaKey payloadCipher hasRecordLayer] by blast
  have "sl_arr inp < length h" using assms by (simp add: slice_ok_def)
  then have "h' ! sl_arr inp = h ! sl_arr inp"
    using t by (metis nth_take)
  then have "load h' inp = load h inp" by (simp add: load_def)
  then show ?thesis using t l by (simp add: md)
qed

theorem deobfs_keeps_input_witness:
  "slice_ok [[9, 9], test_wire] \<lparr>sl_arr = 1, sl_off = 0, sl_len = 34, sl_cap = 34\<rparr>
   \<and> take (length [[9, 9], test_wire])
        (fst (MakeDeobfs test_lib test_key (Some test_aead) False [[9, 9], test_wire]
                \<lparr>sl_arr = 1, sl_off = 0, sl_len = 34, sl_cap = 34\<rparr>))
       = [[9, 9], test_wire]
   \<and> load (fst (MakeDeobfs test_lib test_key (Some test_aead) False [[9, 9], test_wire]
                    \<lparr>sl_arr = 1, sl_off = 0, sl_len = 34, sl_cap = 34\<rparr>))
          \<lparr>sl_arr = 1, sl_off = 0, sl_len = 34, sl_cap = 34\<rparr>
       = test_wire"
proof -
  have ok: "slice_ok [[9, 9], test_wire] \<lparr>sl_arr = 1, sl_off = 0, sl_len = 34, sl_cap = 34\<rparr>"
    by (simp add: slice_ok_def test_wire_def)
  have ld: "load [[9, 9], test_wire] \<lparr>sl_arr = 1, sl_off = 0, sl_len = 34, sl_cap = 34\<rparr>
            = test_wire"
    by (simp add: load_def sub_def test_wire_def)
  show ?thesis
    using deobfs_keeps_input[OF ok, of test_lib test_key "Some test_aead" False] ok ld
    by simp
qed

text \<open>C9, as amended (record layer prefix). With the record layer enabled the destination
  starts with the three bytes 0x17 0x03 0x03 and a 2-byte big-endian field that holds
  14 + payload length + \<open>extraLen\<close> reduced modulo 65536 (the code converts the sum to
  \<open>uint16\<close>); the field equals the sum itself whenever the sum is below 65536.\<close>

theorem record_layer_prefix:
  assumes "cipher_ok payloadCipher"
      and "usefulLen_of payloadCipher True f \<le> length buf"
  shows "sub (fst (MakeObfs lib salsaKey payloadCipher True f buf)) 0 3 = [0x17, 0x03, 0x03]
         \<and> be_value (sub (fst (MakeObfs lib salsaKey payloadCipher True f buf)) 3 5)
             = (14 + length (Payload f) + unat (obfs_extraLen payloadCipher f)) mod 65536
         \<and> (14 + length (Payload f) + unat (obfs_extraLen payloadCipher f) < 65536 \<longrightarrow>
              be_value (sub (fst (MakeObfs lib salsaKey payloadCipher True f buf)) 3 5)
                = 14 + length (Payload f) + unat (obfs_extraLen payloadCipher f))"
  using obfs_prefix_fields[OF assms, of lib salsaKey] by simp

theorem record_layer_prefix_witness:
  "cipher_ok (Some test_aead)
   \<and> usefulLen_of (Some test_aead) True test_frame \<le> length (replicate 40 (0::byte))
   \<and> 14 + length (Payload test_frame) + unat (obfs_extraLen (Some test_aead) test_frame) < 65536
   \<and> sub (fst (MakeObfs test_lib test_key (Some test_aead) True test_frame (replicate 40 0))) 0 3
       = [0x17, 0x03, 0x03]
   \<and> be_value (sub (fst (MakeObfs test_lib test_key (Some test_aead) True test_frame
                             (replicate 40 0))) 3 5) = 34"
proof -
  have n: "usefulLen_of (Some test_aead) True test_frame = 39"
    by (simp add: usefulLen_of_def obfs_extraLen_def test_aead_def test_frame_def HEADER_LEN_def)
  have fits: "usefulLen_of (Some test_aead) True test_frame \<le> length (replicate 40 (0::byte))"
    by (simp add: n)
  have v: "14 + length (Payload test_frame) + unat (obfs_extraLen (Some test_aead) test_frame) = 34"
    by (simp add: obfs_extraLen_def test_aead_def test_frame_def)
  show ?thesis
    using record_layer_prefix[OF test_cipher_ok fits, of test_lib test_key] test_cipher_ok fits
    by (simp add: v)
qed

text \<open>C9 as stated fails for a frame whose 14 + payload length + \<open>extraLen\<close> does not fit
  16 bits: a plain frame with a payload of 65522 bytes has the sum 65536 and the length
  field 0.\<close>

theorem record_layer_length_counterexample:
  "be_value (sub (fst (MakeObfs test_lib test_key None True
                         (test_frame\<lparr>Payload := replicate 65522 0\<rparr>) (replicate 65541 0))) 3 5)
     = 0
   \<and> 14 + length (Payload (test_frame\<lparr>Payload := replicate 65522 0\<rparr>))
        + unat (obfs_extraLen None (test_frame\<lparr>Payload := replicate 65522 0\<rparr>)) = 65536"
proof -
  have e: "obfs_extraLen None (test_frame\<lparr>Payload := replicate 65522 0\<rparr>) = 0"
    by (simp add: obfs_extraLen_def)
  have fits: "usefulLen_of None True (test_frame\<lparr>Payload := replicate 65522 0\<rparr>)
              \<le> length (replicate 65541 (0::byte))"
    by (simp add: usefulLen_of_def e HEADER_LEN_def)
  show ?thesis
    using obfs_prefix_fields(2)[OF plain_cipher_ok fits, of test_lib test_key]
    by (simp add: e)
qed

text \<open>C2 (the key length check of \<open>GenerateObfs\<close>). The code sets \<open>err\<close> when the session key
  is not 32 bytes long, but under the AES-GCM method the assignment
  \<open>c, err = aes.NewCipher(sessionKey)\<close> overwrites it: whenever the AES constructor
  accepts the key (Go's takes 16, 24 and 32 bytes) and GCM is built, \<open>GenerateObfs\<close>
  returns an obfuscator and no error, whatever the key length. The plain method does
  return the error (with an obfuscator beside it), and the ChaCha20-Poly1305 method
  returns the error of its constructor.\<close>

theorem GenerateObfs_aes_key_length_unchecked:
  assumes "aes_NewCipher lib sessionKey = Inr blk" and "cipher_NewGCM lib blk = Inr c"
  shows "snd (GenerateObfs lib E_METHOD_AES_GCM sessionKey hasRecordLayer) = None
         \<and> fst (GenerateObfs lib E_METHOD_AES_GCM sessionKey hasRecordLayer) \<noteq> None
         \<and> (length sessionKey \<noteq> 32 \<longrightarrow>
              snd (GenerateObfs lib E_METHOD_PLAIN sessionKey hasRecordLayer) = Some ErrKeySize
              \<and> fst (GenerateObfs lib E_METHOD_PLAIN sessionKey hasRecordLayer) \<noteq> None)
         \<and> (chacha20poly1305_New lib sessionKey = Inl e \<longrightarrow>
              GenerateObfs lib E_METHOD_CHACHA20_POLY1305 sessionKey hasRecordLayer
                = (None, Some e))"
proof -
  have "length sessionKey \<noteq> 32 \<longrightarrow>
              snd (GenerateObfs lib E_METHOD_PLAIN sessionKey hasRecordLayer) = Some ErrKeySize
              \<and> fst (GenerateObfs lib E_METHOD_PLAIN sessionKey hasRecordLayer) \<noteq> None"
    by (simp add: GenerateObfs_def Let_def)
  moreover have "chacha20poly1305_New lib sessionKey = Inl e \<longrightarrow>
              GenerateObfs lib E_METHOD_CHACHA20_POLY1305 sessionKey hasRecordLayer
                = (None, Some e)"
    by (simp add: GenerateObfs_def Let_def E_METHOD_CHACHA20_POLY1305_def
          E_METHOD_AES_GCM_def E_METHOD_PLAIN_def)
  ultimately show ?thesis by (simp add: GenerateObfs_aes[OF assms])
qed

theorem GenerateObfs_aes_key_length_unchecked_witness:
  "length (replicate 16 (0::byte)) \<noteq> 32
   \<and> aes_NewCipher test_lib (replicate 16 0) = Inr (Block (replicate 16 0))
   \<and> cipher_NewGCM test_lib (Block (replicate 16 0)) = Inr test_aead
   \<and> chacha20poly1305_New test_lib (replicate 16 0) = Inl ErrCipherInit
   \<and> snd (GenerateObfs test_lib E_METHOD_AES_GCM (replicate 16 0) False) = None
   \<and> fst (GenerateObfs test_lib E_METHOD_AES_GCM (replicate 16 0) False) \<noteq> None
   \<and> snd (GenerateObfs test_lib E_METHOD_PLAIN (replicate 16 0) False) = Some ErrKeySize
   \<and> fst (GenerateObfs test_lib E_METHOD_PLAIN (replicate 16 0) False) \<noteq> None
   \<and> GenerateObfs test_lib E_METHOD_CHACHA20_POLY1305 (replicate 16 0) False
       = (None, Some ErrCipherInit)"
proof -
  have a: "aes_NewCipher test_lib (replicate 16 0) = Inr (Block (replicate 16 0))"
    by (simp add: test_lib_def)
  have b: "cipher_NewGCM test_lib (Block (replicate 16 0)) = Inr test_aead"
    by (simp add: test_lib_def)
  have c: "chacha20poly1305_New test_lib (replicate 16 0) = Inl ErrCipherInit"
    by (simp add: test_lib_def)
  have d: "length (replicate 16 (0::byte)) \<noteq> 32" by simp
  show ?thesis
    using GenerateObfs_aes_key_length_unchecked[OF a b, of False ErrCipherInit] a b c d
    by blast
qed

text \<open>C3, as amended (the closing byte is not authenticated). For every frame encoded under
  an AEAD method, XORing any value \<open>d\<close> into the wire byte that carries the masked closing
  field gives a message the decoder accepts: it returns the frame with \<open>Closing\<close> XORed
  with \<open>d\<close> and everything else as encoded. The AEAD nonce is the first 12 header bytes
  and no associated data is passed, so byte 12 is not covered by the tag.\<close>

theorem closing_tamper_accepted:
  assumes "aead_ok c"
      and "usefulLen_of (Some c) hasRecordLayer f \<le> length buf"
  shows "deobfs_bytes lib salsaKey (Some c) hasRecordLayer
           ((take (usefulLen_of (Some c) hasRecordLayer f)
               (fst (MakeObfs lib salsaKey (Some c) hasRecordLayer f buf)))
              [(if hasRecordLayer then 5 else 0) + 12 :=
                 take (usefulLen_of (Some c) hasRecordLayer f)
                   (fst (MakeObfs lib salsaKey (Some c) hasRecordLayer f buf))
                   ! ((if hasRecordLayer then 5 else 0) + 12) XOR d])
         = Inr (f\<lparr>Closing := Closing f XOR d\<rparr>)"
proof -
  have ok: "cipher_ok (Some c)" using assms(1) by (simp add: cipher_ok_def)
  show ?thesis by (rule closing_tamper[OF ok assms(2)])
qed

theorem closing_tamper_accepted_witness:
  "aead_ok test_aead
   \<and> usefulLen_of (Some test_aead) False test_frame \<le> length (replicate 34 (0::byte))
   \<and> deobfs_bytes test_lib test_key (Some test_aead) False
        ((take (usefulLen_of (Some test_aead) False test_frame)
            (fst (MakeObfs test_lib test_key (Some test_aead) False test_frame (replicate 34 0))))
           [(if False then 5 else 0) + 12 :=
              take (usefulLen_of (Some test_aead) False test_frame)
                (fst (MakeObfs test_lib test_key (Some test_aead) False test_frame (replicate 34 0)))
                ! ((if False then 5 else 0) + 12) XOR 1])
      = Inr (test_frame\<lparr>Closing := Closing test_frame XOR 1\<rparr>)"
proof -
  have n: "usefulLen_of (Some test_aead) False test_frame = 34"
    by (simp add: usefulLen_of_def obfs_extraLen_def test_aead_def test_frame_def HEADER_LEN_def)
  have fits: "usefulLen_of (Some test_aead) False test_frame \<le> length (replicate 34 (0::byte))"
    by (simp add: n)
  show ?thesis
    using closing_tamper_accepted[OF test_aead_ok fits, of test_lib test_key 1] test_aead_ok fits
    by simp
qed

text \<open>C3 as stated fails: the encoding of the test frame (closing 0) with wire byte 12
  changed from 42 to 43 decodes without error to a frame with closing 1.\<close>

theorem closing_tamper_counterexample:
  "MakeObfs test_lib test_key (Some test_aead) False
     \<lparr>StreamID = 1, Seq = 0, Closing = 0, Payload = [0x70, 0x69, 0x6E, 0x67]\<rparr> (replicate 34 0)
   = ([0, 1, 2, 2, 34, 35, 36, 37, 8, 9, 10, 11, 42, 59, 213, 204, 203, 194,
       0, 0, 0, 1, 0, 0, 0, 0, 0, 0, 0, 0, 10, 10, 10, 10], Inr 34)
   \<and> deobfs_bytes test_lib test_key (Some test_aead) False
       [0, 1, 2, 2, 34, 35, 36, 37, 8, 9, 10, 11, 43, 59, 213, 204, 203, 194,
        0, 0, 0, 1, 0, 0, 0, 0, 0, 0, 0, 0, 10, 10, 10, 10]
     = Inr \<lparr>StreamID = 1, Seq = 0, Closing = 1, Payload = [0x70, 0x69, 0x6E, 0x67]\<rparr>"
  by code_simp

text \<open>C5 (the \<open>extraLen\<close> byte is not authenticated). For every frame encoded under an AEAD
  method and every nonzero \<open>d\<close> for which the changed \<open>extraLen\<close> does not exceed the
  bytes after the header, XORing \<open>d\<close> into the wire byte that carries the masked
  \<open>extraLen\<close> gives a message the decoder accepts, and the payload it returns differs
  from the encoded payload in length, hence in content. The witness is such a message.\<close>

theorem extraLen_tamper_accepted:
  assumes "aead_ok c"
      and "usefulLen_of (Some c) hasRecordLayer f \<le> length buf"
      and "d \<noteq> 0"
      and "unat (obfs_extraLen (Some c) f XOR d) \<le> length (Payload f) + Overhead c"
  shows "\<exists>g. deobfs_bytes lib salsaKey (Some c) hasRecordLayer
               ((take (usefulLen_of (Some c) hasRecordLayer f)
                   (fst (MakeObfs lib salsaKey (Some c) hasRecordLayer f buf)))
                  [(if hasRecordLayer then 5 else 0) + 13 :=
                     take (usefulLen_of (Some c) hasRecordLayer f)
                       (fst (MakeObfs lib salsaKey (Some c) hasRecordLayer f buf))
                       ! ((if hasRecordLayer then 5 else 0) + 13) XOR d])
             = Inr g
           \<and> length (Payload g)
               = length (Payload f) + Overhead c - unat (obfs_extraLen (Some c) f XOR d)
           \<and> length (Payload g) \<noteq> length (Payload f)
           \<and> Payload g \<noteq> Payload f"
proof -
  define k where "k = length (Payload f) + Overhead c - unat (obfs_extraLen (Some c) f XOR d)"
  define g where "g = f\<lparr>Payload := take k (Payload f @ drop (length (Payload f))
                                                  (obfs_body lib (Some c) f))\<rparr>"
  have ok: "cipher_ok (Some c)" using assms(1) by (simp add: cipher_ok_def)
  have lb: "length (obfs_body lib (Some c) f) = length (Payload f) + Overhead c"
    using length_obfs_body[OF ok, of lib f] unat_extraLen_aead[OF assms(1), of f] by simp
  have ne: "obfs_extraLen (Some c) f XOR d \<noteq> obfs_extraLen (Some c) f"
  proof
    assume "obfs_extraLen (Some c) f XOR d = obfs_extraLen (Some c) f"
    then have "obfs_extraLen (Some c) f XOR (obfs_extraLen (Some c) f XOR d)
               = obfs_extraLen (Some c) f XOR obfs_extraLen (Some c) f" by simp
    then have "d = 0" by (simp add: xor.assoc[symmetric])
    then show False using assms(3) by simp
  qed
  then have "unat (obfs_extraLen (Some c) f XOR d) \<noteq> Overhead c"
    using unat_extraLen_aead[OF assms(1), of f] by (metis word_unat_eq_iff)
  then have kne: "k \<noteq> length (Payload f)" using assms(4) by (simp add: k_def)
  have lg: "length (Payload g) = k"
    using lb assms(4) by (simp add: g_def k_def)
  have "deobfs_bytes lib salsaKey (Some c) hasRecordLayer
               ((take (usefulLen_of (Some c) hasRecordLayer f)
                   (fst (MakeObfs lib salsaKey (Some c) hasRecordLayer f buf)))
                  [(if hasRecordLayer then 5 else 0) + 13 :=
                     take (usefulLen_of (Some c) hasRecordLayer f)
                       (fst (MakeObfs lib salsaKey (Some c) hasRecordLayer f buf))
                       ! ((if hasRecordLayer then 5 else 0) + 13) XOR d])
             = Inr g"
    unfolding g_def k_def by (rule extraLen_tamper[OF assms(1,2,4)])
  moreover have "length (Payload g) \<noteq> length (Payload f)" using lg kne by simp
  moreover have "Payload g \<noteq> Payload f" using lg kne by auto
  ultimately show ?thesis using lg k_def by blast
qed

theorem extraLen_tamper_accepted_witness:
  "aead_ok test_aead
   \<and> usefulLen_of (Some test_aead) False test_frame \<le> length (replicate 34 (0::byte))
   \<and> (1::byte) \<noteq> 0
   \<and> unat (obfs_extraLen (Some test_aead) test_frame XOR 1)
        \<le> length (Payload test_frame) + Overhead test_aead
   \<and> (\<exists>g. deobfs_bytes test_lib test_key (Some test_aead) False
               ((take (usefulLen_of (Some test_aead) False test_frame)
                   (fst (MakeObfs test_lib test_key (Some test_aead) False test_frame
                           (replicate 34 0))))
                  [(if False then 5 else 0) + 13 :=
                     take (usefulLen_of (Some test_aead) False test_frame)
                       (fst (MakeObfs test_lib test_key (Some test_aead) False test_frame
                               (replicate 34 0)))
                       ! ((if False then 5 else 0) + 13) XOR 1])
             = Inr g
           \<and> length (Payload g) = 3
           \<and> length (Payload g) \<noteq> length (Payload test_frame)
           \<and> Payload g \<noteq> Payload test_frame)"
proof -
  have n: "usefulLen_of (Some test_aead) False test_frame = 34"
    by (simp add: usefulLen_of_def obfs_extraLen_def test_aead_def test_frame_def HEADER_LEN_def)
  have fits: "usefulLen_of (Some test_aead) False test_frame \<le> length (replicate 34 (0::byte))"
    by (simp add: n)
  have d: "(1::byte) \<noteq> 0" by simp
  have e: "unat (obfs_extraLen (Some test_aead) test_frame XOR 1) = 17"
    by (simp add: obfs_extraLen_def test_aead_def)
  have l20: "length (Payload test_frame) + Overhead test_aead = 20"
    by (simp add: test_frame_def test_aead_def)
  have le: "unat (obfs_extraLen (Some test_aead) test_frame XOR 1)
              \<le> length (Payload test_frame) + Overhead test_aead"
    unfolding e l20 by simp
  have k: "length (Payload test_frame) + Overhead test_aead
             - unat (obfs_extraLen (Some test_aead) test_frame XOR 1) = 3"
    unfolding e l20 by simp
  show ?thesis
    using extraLen_tamper_accepted[OF test_aead_ok fits d le, of test_lib test_key]
          test_aead_ok fits le
    by (simp add: k)
qed




end
